theory Spec2Isabelle
  imports Main "HOL-Library.Char_ord" "HOL-Library.List_Lexorder"
begin

section \<open>Limits of the shell (the macros of myshall.c)\<close>

definition MAX_ARGS :: nat where "MAX_ARGS = 64"
definition MAX_PIPES :: nat where "MAX_PIPES = 10"
definition MAX_PATH :: nat where "MAX_PATH = 512"
definition MAX_RECURSION :: nat where "MAX_RECURSION = 100"

section \<open>The parser: \<open>parse_command\<close>\<close>

subsection \<open>The C library calls it uses\<close>

text \<open>
  Strings are C strings: lists of bytes without the terminating NUL.
  \<open>strtok delim s\<close> is one call of strtok(3) on the text \<open>s\<close> that is still
  unread: it skips leading delimiters, returns nothing when no byte is left, and
  otherwise returns the token up to the next delimiter together with the text
  after that delimiter, which the next call \<open>strtok(NULL, delim)\<close> reads.
\<close>

definition strtok :: "string \<Rightarrow> string \<Rightarrow> (string \<times> string) option" where
  "strtok delim s =
     (let s1 = dropWhile (\<lambda>c. c \<in> set delim) s in
      if s1 = [] then None
      else Some (takeWhile (\<lambda>c. c \<notin> set delim) s1,
                 drop 1 (dropWhile (\<lambda>c. c \<notin> set delim) s1)))"

lemma strtok_shorter: "strtok delim s = Some (t, rest) \<Longrightarrow> length rest < length s"
proof -
  assume a: "strtok delim s = Some (t, rest)"
  let ?s1 = "dropWhile (\<lambda>c. c \<in> set delim) s"
  from a have ne: "?s1 \<noteq> []" and r: "rest = drop 1 (dropWhile (\<lambda>c. c \<notin> set delim) ?s1)"
    by (auto simp: strtok_def Let_def split: if_splits)
  from ne have "hd ?s1 \<notin> set delim" using hd_dropWhile by blast
  with ne have "length (dropWhile (\<lambda>c. c \<notin> set delim) ?s1) < length ?s1"
    by (cases ?s1) (auto intro: le_imp_less_Suc length_dropWhile_le)
  moreover have "length ?s1 \<le> length s" by (rule length_dropWhile_le)
  ultimately show ?thesis using r by simp
qed

text \<open>The successive results of strtok on one string, until it returns NULL.\<close>

function strtok_all :: "string \<Rightarrow> string \<Rightarrow> string list" where
  "strtok_all delim s =
     (case strtok delim s of None \<Rightarrow> [] | Some (t, rest) \<Rightarrow> t # strtok_all delim rest)"
  by pat_completeness auto
termination
  by (relation "measure (\<lambda>(delim, s). length s)") (auto dest: strtok_shorter)

declare strtok_all.simps [simp del]

text \<open>The three bytes the parser treats as blanks: space, tab and newline.\<close>

definition blanks :: string where
  "blanks = [CHR '' '', CHR 0x09, CHR 0x0A]"

definition is_blank :: "char \<Rightarrow> bool" where
  "is_blank c \<longleftrightarrow> c = CHR '' '' \<or> c = CHR 0x09 \<or> c = CHR 0x0A"

text \<open>Lines 204-207: skip leading blanks, then overwrite trailing blanks with NUL.\<close>

definition trim :: "string \<Rightarrow> string" where
  "trim s = rev (dropWhile is_blank (rev (dropWhile is_blank s)))"

text \<open>
  glob(3) as the parser calls it, with \<open>GLOB_NOCHECK | GLOB_TILDE\<close> and no
  \<open>GLOB_NOSORT\<close>. The file system is the parameter \<open>matches\<close>: the path names a
  pattern matches, in any order, or \<open>None\<close> when glob fails (a non-zero return).
  POSIX: the matches are returned sorted, and with \<open>GLOB_NOCHECK\<close> a pattern that
  matches nothing is returned itself as the only path.
\<close>

type_synonym matcher = "string \<Rightarrow> string list option"

definition glob_nocheck :: "matcher \<Rightarrow> string \<Rightarrow> string list option" where
  "glob_nocheck matches pattern =
     (case matches pattern of
        None \<Rightarrow> None
      | Some ms \<Rightarrow> Some (if ms = [] then [pattern] else sort ms))"

subsection \<open>The pipeline description\<close>

record stage =
  args :: "string list"
  input_file :: "string option"
  output_file :: "string option"
  appends :: bool

record pipeline =
  stages :: "stage list"
  background :: bool

text \<open>Every place where \<open>parse_command\<close> returns 0.\<close>

datatype parse_error =
    EmptyLine
  | MissingFile string
  | UnexpectedToken string
  | NoStages

definition empty_stage :: stage where
  "empty_stage = \<lparr>args = [], input_file = None, output_file = None, appends = False\<rparr>"

subsection \<open>Splitting on the pipe delimiter (lines 187-197)\<close>

text \<open>
  The loop stores the results of strtok in \<open>cmd_tokens[cmd_idx]\<close> while the last
  one stored is not NULL and \<open>cmd_idx < MAX_PIPES - 1\<close>; \<open>num_commands\<close> is the
  final \<open>cmd_idx\<close>. The function returns \<open>cmd_tokens[cmd_idx .. num_commands - 1]\<close>
  from the strtok results that are still to come.
\<close>

fun split_pipes :: "nat \<Rightarrow> string list \<Rightarrow> string list" where
  "split_pipes cmd_idx [] = []"
| "split_pipes cmd_idx (t # ts) =
     (if cmd_idx < MAX_PIPES - 1 then t # split_pipes (Suc cmd_idx) ts else [])"

subsection \<open>Walking the tokens of one segment (lines 220-285)\<close>

definition has_wildcard :: "string \<Rightarrow> bool" where
  "has_wildcard token \<longleftrightarrow>
     CHR ''*'' \<in> set token \<or> CHR ''?'' \<in> set token \<or> CHR ''['' \<in> set token"

text \<open>Lines 271-273: copy the paths of the glob result while there is room.\<close>

fun append_paths :: "string list \<Rightarrow> string list \<Rightarrow> string list" where
  "append_paths as [] = as"
| "append_paths as (p # ps) =
     (if length as < MAX_ARGS - 1 then append_paths (as @ [p]) ps else as)"

text \<open>Lines 267-281: the arguments after an ordinary token has been added.\<close>

definition add_token :: "matcher \<Rightarrow> string \<Rightarrow> string list \<Rightarrow> string list" where
  "add_token matches token as =
     (if has_wildcard token then
        (case glob_nocheck matches token of
           Some pathv \<Rightarrow> append_paths as pathv
         | None \<Rightarrow> as @ [token])
      else as @ [token])"

text \<open>
  The while loop of lines 222-284 over the tokens that strtok still returns.
  \<open>is_last\<close> is the test \<open>c == *num_commands - 1\<close>, \<open>prev\<close> is
  \<open>prev_was_redirect\<close>, the number of arguments stored so far is \<open>i\<close>. The
  three redirection branches and the \<open>&\<close> branch leave the loop (\<open>break\<close>).
\<close>

fun walk :: "matcher \<Rightarrow> bool \<Rightarrow> bool \<Rightarrow> string list \<Rightarrow> stage \<times> bool
               \<Rightarrow> parse_error + stage \<times> bool" where
  "walk matches is_last prev [] (st, bg) = Inr (st, bg)"
| "walk matches is_last prev (token # rest) (st, bg) =
     (if \<not> length (args st) < MAX_ARGS - 1 then Inr (st, bg)
      else if token = ''>'' then
        (case rest of
           [] \<Rightarrow> Inl (MissingFile ''>'')
         | f # _ \<Rightarrow> Inr (st\<lparr>output_file := Some f, appends := False\<rparr>, bg))
      else if token = ''>>'' then
        (case rest of
           [] \<Rightarrow> Inl (MissingFile ''>>'')
         | f # _ \<Rightarrow> Inr (st\<lparr>output_file := Some f, appends := True\<rparr>, bg))
      else if token = ''<'' then
        (case rest of
           [] \<Rightarrow> Inl (MissingFile ''<'')
         | f # _ \<Rightarrow> Inr (st\<lparr>input_file := Some f\<rparr>, bg))
      else if token = ''&'' \<and> is_last then Inr (st, True)
      else if prev then Inl (UnexpectedToken token)
      else walk matches is_last False rest
             (st\<lparr>args := add_token matches token (args st)\<rparr>, bg))"

subsection \<open>The loop over the segments (lines 199-287) and the whole parser\<close>

text \<open>
  \<open>n\<close> is \<open>*num_commands\<close> as the split left it, \<open>c\<close> the loop counter. A segment
  that is empty after trimming sets \<open>*num_commands = c\<close> and leaves the loop: the
  stages built so far are the result.
\<close>

fun segments :: "matcher \<Rightarrow> nat \<Rightarrow> nat \<Rightarrow> string list \<Rightarrow> stage list \<times> bool
                   \<Rightarrow> parse_error + stage list \<times> bool" where
  "segments matches n c [] (sts, bg) = Inr (sts, bg)"
| "segments matches n c (seg # segs) (sts, bg) =
     (if trim seg = [] then Inr (sts, bg)
      else
        (case walk matches (c = n - 1) False (strtok_all blanks (trim seg)) (empty_stage, bg) of
           Inl e \<Rightarrow> Inl e
         | Inr (st, bg') \<Rightarrow> segments matches n (Suc c) segs (sts @ [st], bg')))"

definition parse_command :: "matcher \<Rightarrow> string \<Rightarrow> parse_error + pipeline" where
  "parse_command matches command =
     (let cmd_tokens = split_pipes 0 (strtok_all ''|'' command);
          num_commands = length cmd_tokens
      in if num_commands = 0 then Inl EmptyLine
         else
           (case segments matches num_commands 0 cmd_tokens ([], False) of
              Inl e \<Rightarrow> Inl e
            | Inr (sts, bg) \<Rightarrow>
                if length sts = 0 then Inl NoStages
                else Inr \<lparr>stages = sts, background = bg\<rparr>))"

text \<open>
  The tokens at which the walk stops or fails instead of storing an argument: the
  redirection operators, \<open>&\<close> in the last segment, and any token while
  \<open>prev_was_redirect\<close> is set.
\<close>

definition is_op :: "bool \<Rightarrow> bool \<Rightarrow> string \<Rightarrow> bool" where
  "is_op l prev token \<longleftrightarrow>
     token = ''>'' \<or> token = ''>>'' \<or> token = ''<'' \<or> (token = ''&'' \<and> l) \<or> prev"

subsection \<open>The segments of a line, as the specification counts them\<close>

text \<open>
  The specification speaks of the pipe-separated segments of a line. \<open>pieces d s\<close> are
  the pieces of \<open>s\<close> between the occurrences of the byte \<open>d\<close>, in order: between two
  adjacent delimiters, before a leading and after a trailing delimiter there is a piece
  of length zero. \<open>join_pieces\<close> puts pieces together again, with one delimiter between
  two of them. The parser itself never calls these: it splits with strtok.
\<close>

fun pieces :: "char \<Rightarrow> string \<Rightarrow> string list" where
  "pieces d [] = [[]]"
| "pieces d (c # cs) =
     (if c = d then [] # pieces d cs
      else (case pieces d cs of [] \<Rightarrow> [[c]] | f # fs \<Rightarrow> (c # f) # fs))"

fun join_pieces :: "char \<Rightarrow> string list \<Rightarrow> string" where
  "join_pieces d [] = []"
| "join_pieces d [f] = f"
| "join_pieces d (f # g # fs) = f @ d # join_pieces d (g # fs)"

definition pipe_segments :: "string \<Rightarrow> string list" where
  "pipe_segments line = pieces (CHR ''|'') line"

definition join_pipes :: "string list \<Rightarrow> string" where
  "join_pipes segs = join_pieces (CHR ''|'') segs"

subsection \<open>Concrete file systems and pipelines used in the examples\<close>

text \<open>A directory in which no pattern matches anything.\<close>

definition no_matches :: matcher where
  "no_matches pattern = Some []"

text \<open>A directory of 72 files with two-letter names, and a glob that matches all of them.\<close>

definition crowded_names :: "string list" where
  "crowded_names = concat (map (\<lambda>a. map (\<lambda>b. [a, b]) ''abcdefghi'') ''abcdefgh'')"

definition crowded_directory :: matcher where
  "crowded_directory pattern = Some crowded_names"

text \<open>A directory with two C sources, listed by the file system in reverse order.\<close>

definition two_sources :: matcher where
  "two_sources pattern = (if pattern = ''*.c'' then Some [''b.c'', ''a.c''] else Some [])"




section \<open>The reaper: \<open>sigchld_handler\<close>\<close>

text \<open>
  The children of the shell, in the order in which the kernel reports them: the process
  identifier and whether the child still runs or has terminated and waits to be reaped.
\<close>

datatype child_state = Running | Terminated

type_synonym proc_table = "(nat \<times> child_state) list"

text \<open>
  \<open>waitpid(-1, NULL, WNOHANG)\<close>: reaps one terminated child and returns its identifier;
  returns 0 when children exist but none has terminated, and -1 when there is no child.
\<close>

fun reap_first :: "proc_table \<Rightarrow> (nat \<times> proc_table) option" where
  "reap_first [] = None"
| "reap_first ((pid, s) # procs) =
     (if s = Terminated then Some (pid, procs)
      else map_option (\<lambda>(p, rest). (p, (pid, s) # rest)) (reap_first procs))"

definition waitpid_any_nohang :: "proc_table \<Rightarrow> int \<times> proc_table" where
  "waitpid_any_nohang procs =
     (case reap_first procs of
        Some (pid, procs') \<Rightarrow> (int pid, procs')
      | None \<Rightarrow> (if procs = [] then - 1 else 0, procs))"

text \<open>
  The library calls a run of the handler makes, in order. POSIX lists \<open>waitpid\<close> among the
  async-signal-safe functions; \<open>printf\<close> writes through the buffer of \<open>stdout\<close> and is
  not one of them.
\<close>

datatype libcall = Waitpid int | Printf string

fun async_signal_safe :: "libcall \<Rightarrow> bool" where
  "async_signal_safe (Waitpid r) = True"
| "async_signal_safe (Printf text) = False"

text \<open>The conversion \<open>%d\<close> of printf.\<close>

fun decimal :: "nat \<Rightarrow> string" where
  "decimal n = (if n < 10 then [char_of (48 + n)] else decimal (n div 10) @ [char_of (48 + n mod 10)])"

declare decimal.simps [simp del]

definition format_d :: "int \<Rightarrow> string" where
  "format_d i = (if i < 0 then CHR ''-'' # decimal (nat (- i)) else decimal (nat i))"

definition completed_message :: "int \<Rightarrow> string" where
  "completed_message pid = ''[PID '' @ format_d pid @ ''] Completed'' @ [CHR 0x0A]"

lemma reap_first_Some:
  "reap_first procs = Some (p, procs') \<Longrightarrow>
     length procs' < length procs
     \<and> filter (\<lambda>(pid, s). s = Terminated) procs
         = (p, Terminated) # filter (\<lambda>(pid, s). s = Terminated) procs'
     \<and> filter (\<lambda>(pid, s). s \<noteq> Terminated) procs' = filter (\<lambda>(pid, s). s \<noteq> Terminated) procs
     \<and> set procs' \<subseteq> set procs"
proof (induction procs arbitrary: procs')
  case Nil
  then show ?case by simp
next
  case (Cons x procs)
  obtain q t where x: "x = (q, t)" by (cases x)
  show ?case
  proof (cases "t = Terminated")
    case True
    with Cons.prems x show ?thesis by auto
  next
    case False
    with Cons.prems x obtain rest where r: "reap_first procs = Some (p, rest)"
      and p': "procs' = (q, t) # rest"
      by auto
    from Cons.IH [OF r] p' x False show ?thesis by auto
  qed
qed

lemma reap_first_None:
  "reap_first procs = None \<longleftrightarrow> filter (\<lambda>(pid, s). s = Terminated) procs = []"
  by (induction procs) auto

lemma waitpid_reaps_one:
  "waitpid_any_nohang procs = (pid, procs') \<Longrightarrow> 0 < pid \<Longrightarrow> length procs' < length procs"
  by (auto simp: waitpid_any_nohang_def split: option.splits if_splits dest: reap_first_Some)

text \<open>
  Lines 522-527. The handler takes the table of children and returns it as the loop
  leaves it, with the library calls made: each pass of the loop calls \<open>waitpid\<close> and,
  when a child was reaped, \<open>printf\<close>.
\<close>

function sigchld_handler :: "proc_table \<Rightarrow> proc_table \<times> libcall list" where
  "sigchld_handler procs =
     (case waitpid_any_nohang procs of
        (pid, procs') \<Rightarrow>
          if 0 < pid then
            (case sigchld_handler procs' of
               (final, calls) \<Rightarrow> (final, Waitpid pid # Printf (completed_message pid) # calls))
          else (procs', [Waitpid pid]))"
  by pat_completeness auto
termination
  by (relation "measure length") (auto dest: waitpid_reaps_one [OF sym])

declare sigchld_handler.simps [simp del]

text \<open>Tables of children used in the examples.\<close>

definition one_zombie :: proc_table where
  "one_zombie = [(42, Terminated)]"

definition three_children :: proc_table where
  "three_children = [(7, Terminated), (8, Running), (9, Terminated)]"


section \<open>The executor: \<open>execute_system_command\<close> and \<open>execute_multiple_pipes\<close>\<close>

subsection \<open>Descriptor tables\<close>

text \<open>
  What an open descriptor refers to: the stream the shell inherited, a file opened
  by name with the given flags, or one end of the pipe created for the boundary
  after stage \<open>k\<close>.
\<close>

datatype open_flags = ReadOnly | WriteTrunc | WriteAppend

datatype fobj =
    Inherited
  | OpenFile string open_flags
  | PipeRead nat
  | PipeWrite nat

text \<open>
  The descriptor table of a process: entry \<open>fd\<close> is what descriptor \<open>fd\<close> refers to,
  \<open>None\<close> when it is closed. Descriptors past the end of the list are closed.
\<close>

type_synonym fdtable = "fobj option list"

definition fd_lookup :: "fdtable \<Rightarrow> nat \<Rightarrow> fobj option" where
  "fd_lookup tab fd = (if fd < length tab then tab ! fd else None)"

definition fd_install :: "fdtable \<Rightarrow> nat \<Rightarrow> fobj \<Rightarrow> fdtable" where
  "fd_install tab fd obj = (tab @ replicate (Suc fd - length tab) None)[fd := Some obj]"

text \<open>open(2) and pipe(2) return the lowest descriptor that is not open.\<close>

definition lowest_free :: "fdtable \<Rightarrow> nat" where
  "lowest_free tab = length (takeWhile (\<lambda>e. e \<noteq> None) tab)"

text \<open>
  What the executor cannot decide by itself: which files can be opened, which programs
  execvp finds, and which calls of pipe(2) and fork(2) succeed (by the index of the loop
  that makes the call).
\<close>

record os =
  can_open :: "string \<Rightarrow> open_flags \<Rightarrow> bool"
  can_exec :: "string \<Rightarrow> bool"
  pipe_ok :: "nat \<Rightarrow> bool"
  fork_ok :: "nat \<Rightarrow> bool"

definition sys_open :: "os \<Rightarrow> string \<Rightarrow> open_flags \<Rightarrow> fdtable \<Rightarrow> (nat \<times> fdtable) option" where
  "sys_open env path flags tab =
     (if can_open env path flags
      then Some (lowest_free tab, fd_install tab (lowest_free tab) (OpenFile path flags))
      else None)"

definition sys_dup2 :: "nat \<Rightarrow> nat \<Rightarrow> fdtable \<Rightarrow> fdtable" where
  "sys_dup2 oldfd newfd tab =
     (case fd_lookup tab oldfd of None \<Rightarrow> tab | Some obj \<Rightarrow> fd_install tab newfd obj)"

definition sys_close :: "nat \<Rightarrow> fdtable \<Rightarrow> fdtable" where
  "sys_close fd tab = (if fd < length tab then tab[fd := None] else tab)"

definition sys_pipe :: "os \<Rightarrow> nat \<Rightarrow> fdtable \<Rightarrow> (nat \<times> nat \<times> fdtable) option" where
  "sys_pipe env k tab =
     (if pipe_ok env k then
        (let r = lowest_free tab;
             tab1 = fd_install tab r (PipeRead k);
             w = lowest_free tab1
         in Some (r, w, fd_install tab1 w (PipeWrite k)))
      else None)"

text \<open>The loops \<open>for (j = 0; j < ...; j++) close(pipefd[j])\<close>.\<close>

fun close_all :: "nat list \<Rightarrow> fdtable \<Rightarrow> fdtable" where
  "close_all [] tab = tab"
| "close_all (fd # fds) tab = close_all fds (sys_close fd tab)"

text \<open>\<open>if (fd >= 0) close(fd)\<close>, for a variable that is -1 until a file is opened.\<close>

fun close_if_open :: "nat option \<Rightarrow> fdtable \<Rightarrow> fdtable" where
  "close_if_open None tab = tab"
| "close_if_open (Some fd) tab = sys_close fd tab"

subsection \<open>A child process\<close>

text \<open>
  How a forked child ends: it calls \<open>exit\<close> with a status, or it replaces its image by
  the program of its stage, with the arguments of the stage, the descriptor table it has
  built, and, when it called \<open>setsid\<close>, in a session of its own. A stage without any
  argument passes a null pointer to execvp as the file name.
\<close>

datatype child_end =
    Exited nat
  | Exec "string list" fdtable bool
  | ExecNull

text \<open>Lines 567-570 and 647-650: execvp, and \<open>exit(1)\<close> when it returns.\<close>

definition execvp :: "os \<Rightarrow> string list \<Rightarrow> fdtable \<Rightarrow> bool \<Rightarrow> child_end" where
  "execvp env argv tab session =
     (case argv of
        [] \<Rightarrow> ExecNull
      | file # _ \<Rightarrow> if can_exec env file then Exec argv tab session else Exited 1)"

text \<open>
  Lines 609-651, the child of stage \<open>i\<close> of \<open>n\<close>: \<open>tab\<close> is the table it inherits from
  the shell, \<open>pipefd\<close> the array of pipe descriptors. The result of each of the two
  redirection steps is the value of \<open>input_fd\<close> (\<open>output_fd\<close>), \<open>None\<close> for -1, with the
  table; a file that cannot be opened ends the child with \<open>exit(1)\<close>.
\<close>

definition pipe_child_input :: "os \<Rightarrow> stage \<Rightarrow> nat list \<Rightarrow> nat \<Rightarrow> fdtable
    \<Rightarrow> (nat option \<times> fdtable) option" where
  "pipe_child_input env st pipefd i tab =
     (case input_file st of
        Some f \<Rightarrow>
          (case sys_open env f ReadOnly tab of
             None \<Rightarrow> None
           | Some (input_fd, tab') \<Rightarrow> Some (Some input_fd, sys_dup2 input_fd 0 tab'))
      | None \<Rightarrow>
          if 0 < i then Some (None, sys_dup2 (pipefd ! ((i - 1) * 2)) 0 tab)
          else Some (None, tab))"

definition pipe_child_output :: "os \<Rightarrow> stage \<Rightarrow> nat list \<Rightarrow> nat \<Rightarrow> nat \<Rightarrow> fdtable
    \<Rightarrow> (nat option \<times> fdtable) option" where
  "pipe_child_output env st pipefd i n tab =
     (case output_file st of
        Some f \<Rightarrow>
          (case sys_open env f (if appends st then WriteAppend else WriteTrunc) tab of
             None \<Rightarrow> None
           | Some (output_fd, tab') \<Rightarrow> Some (Some output_fd, sys_dup2 output_fd 1 tab'))
      | None \<Rightarrow>
          if i < n - 1 then Some (None, sys_dup2 (pipefd ! (i * 2 + 1)) 1 tab)
          else Some (None, tab))"

definition pipe_child :: "os \<Rightarrow> stage list \<Rightarrow> nat list \<Rightarrow> nat \<Rightarrow> fdtable \<Rightarrow> child_end" where
  "pipe_child env sts pipefd i tab =
     (case pipe_child_input env (sts ! i) pipefd i tab of
        None \<Rightarrow> Exited 1
      | Some (input_fd, tab1) \<Rightarrow>
          (case pipe_child_output env (sts ! i) pipefd i (length sts) tab1 of
             None \<Rightarrow> Exited 1
           | Some (output_fd, tab2) \<Rightarrow>
               execvp env (args (sts ! i))
                 (close_if_open output_fd (close_if_open input_fd (close_all pipefd tab2)))
                 False))"

subsection \<open>The shell's side of a launch\<close>

datatype launch_error = PipeFailed | ForkFailed

text \<open>
  What a launch leaves behind: how each child that was forked ends, the descriptor table
  of the shell afterwards, whether the shell waited for the children, and the error that
  stopped the launch, if any.
\<close>

record launch =
  children :: "child_end list"
  shell_fds :: fdtable
  waited :: bool
  failure :: "launch_error option"

text \<open>
  Lines 589-597: \<open>create_pipes env ks pipefd tab\<close> creates the pipes of the boundaries
  \<open>ks\<close> still to come; when a call fails, the descriptors created so far are closed.
\<close>

fun create_pipes :: "os \<Rightarrow> nat list \<Rightarrow> nat list \<Rightarrow> fdtable \<Rightarrow> fdtable + nat list \<times> fdtable" where
  "create_pipes env [] pipefd tab = Inr (pipefd, tab)"
| "create_pipes env (k # ks) pipefd tab =
     (case sys_pipe env k tab of
        None \<Rightarrow> Inl (close_all pipefd tab)
      | Some (r, w, tab') \<Rightarrow> create_pipes env ks (pipefd @ [r, w]) tab')"

text \<open>
  Lines 600-652: the children of the stages \<open>is\<close> still to fork. The shell does not
  touch its table between two forks, so every child inherits the same one.
\<close>

fun fork_children :: "os \<Rightarrow> stage list \<Rightarrow> nat list \<Rightarrow> fdtable \<Rightarrow> nat list
    \<Rightarrow> child_end list \<times> bool" where
  "fork_children env sts pipefd tab [] = ([], True)"
| "fork_children env sts pipefd tab (i # is) =
     (if fork_ok env i then
        (case fork_children env sts pipefd tab is of
           (cs, ok) \<Rightarrow> (pipe_child env sts pipefd i tab # cs, ok))
      else ([], False))"

definition execute_multiple_pipes :: "os \<Rightarrow> pipeline \<Rightarrow> fdtable \<Rightarrow> launch" where
  "execute_multiple_pipes env p tab =
     (let num_commands = length (stages p) in
      case create_pipes env [0 ..< num_commands - 1] [] tab of
        Inl tab' \<Rightarrow>
          \<lparr>children = [], shell_fds = tab', waited = False, failure = Some PipeFailed\<rparr>
      | Inr (pipefd, tab') \<Rightarrow>
          (case fork_children env (stages p) pipefd tab' [0 ..< num_commands] of
             (cs, ok) \<Rightarrow>
               \<lparr>children = cs, shell_fds = close_all pipefd tab',
                waited = (ok \<and> \<not> background p),
                failure = (if ok then None else Some ForkFailed)\<rparr>))"

text \<open>
  Lines 532-579, the single-stage case. The child of lines 540-570, then the shell:
  no fork at all for a stage without arguments.
\<close>

definition system_child :: "os \<Rightarrow> stage \<Rightarrow> bool \<Rightarrow> fdtable \<Rightarrow> child_end" where
  "system_child env st bg tab =
     (case (case input_file st of
              Some f \<Rightarrow>
                (case sys_open env f ReadOnly tab of
                   None \<Rightarrow> None
                 | Some (input_fd, tab') \<Rightarrow> Some (Some input_fd, sys_dup2 input_fd 0 tab'))
            | None \<Rightarrow> Some (None, tab)) of
        None \<Rightarrow> Exited 1
      | Some (input_fd, tab1) \<Rightarrow>
          (case (case output_file st of
                   Some f \<Rightarrow>
                     (case sys_open env f (if appends st then WriteAppend else WriteTrunc) tab1 of
                        None \<Rightarrow> None
                      | Some (output_fd, tab') \<Rightarrow>
                          Some (Some output_fd, sys_dup2 output_fd 1 tab'))
                 | None \<Rightarrow> Some (None, tab1)) of
             None \<Rightarrow> Exited 1
           | Some (output_fd, tab2) \<Rightarrow>
               execvp env (args st) (close_if_open output_fd (close_if_open input_fd tab2)) bg))"

definition execute_system_command :: "os \<Rightarrow> stage \<Rightarrow> bool \<Rightarrow> fdtable \<Rightarrow> launch" where
  "execute_system_command env st bg tab =
     (if args st = [] then
        \<lparr>children = [], shell_fds = tab, waited = False, failure = None\<rparr>
      else if \<not> fork_ok env 0 then
        \<lparr>children = [], shell_fds = tab, waited = False, failure = Some ForkFailed\<rparr>
      else
        \<lparr>children = [system_child env st bg tab], shell_fds = tab, waited = (\<not> bg),
         failure = None\<rparr>)"


text \<open>
  The table of a shell started from a terminal, a system in which every call succeeds,
  and a pipeline of three stages, each with a redirection.
\<close>

definition terminal_fds :: fdtable where
  "terminal_fds = [Some Inherited, Some Inherited, Some Inherited]"

definition obliging_os :: os where
  "obliging_os = \<lparr>can_open = (\<lambda>path flags. True), can_exec = (\<lambda>file. True),
                   pipe_ok = (\<lambda>k. True), fork_ok = (\<lambda>i. True)\<rparr>"

definition redirected_pipeline :: pipeline where
  "redirected_pipeline =
     \<lparr>stages = [\<lparr>args = [''cat''], input_file = Some ''in'', output_file = None,
                  appends = False\<rparr>,
                \<lparr>args = [''sort''], input_file = None, output_file = Some ''mid'',
                  appends = False\<rparr>,
                \<lparr>args = [''wc''], input_file = Some ''words'', output_file = Some ''out'',
                  appends = True\<rparr>],
      background = False\<rparr>"

text \<open>
  The tables of a shell that was started with its standard output closed (as by
  \<open>./myshell >&-\<close>), and of one started with its standard input closed.
\<close>

definition stdout_closed_fds :: fdtable where
  "stdout_closed_fds = [Some Inherited, None, Some Inherited]"

definition stdin_closed_fds :: fdtable where
  "stdin_closed_fds = [None, Some Inherited, Some Inherited]"


section \<open>The file system the tree operations run on\<close>

text \<open>
  A file is an inode: a regular file with its permission bits and contents, a directory
  with its permission bits, the number of its parent directory and its entries (name and
  inode number, in the order readdir returns them; the entries \<open>.\<close> and \<open>..\<close> are not
  stored), or a symbolic link with its target path. A file system is the list of its
  inodes, inode 0 being the root directory, which is also the working directory of the
  shell. The model has no permission checks and no hard links; a removed file keeps its
  inode, which no name refers to any more.
\<close>

unbundle bit_operations_syntax

datatype inode =
    RegFile nat string
  | Directory nat nat "(string \<times> nat) list"
  | Symlink string

type_synonym filesys = "inode list"

definition inode_at :: "filesys \<Rightarrow> nat \<Rightarrow> inode option" where
  "inode_at fs i = (if i < length fs then Some (fs ! i) else None)"

text \<open>The number of symbolic links one path resolution follows before it fails (ELOOP).\<close>

definition SYMLOOP_MAX :: nat where "SYMLOOP_MAX = 40"

text \<open>
  The components of a path. A path that ends in a slash names a directory: the
  component \<open>.\<close> is added, which only a directory has.
\<close>

definition path_components :: "string \<Rightarrow> string list" where
  "path_components path =
     strtok_all ''/'' path @ (if path \<noteq> [] \<and> last path = CHR ''/'' then [''.''] else [])"

text \<open>
  Path resolution from the directory \<open>cur\<close>: \<open>fuel\<close> is the number of symbolic links that
  may still be followed, \<open>follow\<close> says whether a symbolic link at the final component is
  followed (stat, open, opendir) or is itself the result (lstat, unlink, rmdir).
\<close>

function walk_path :: "filesys \<Rightarrow> nat \<Rightarrow> bool \<Rightarrow> nat \<Rightarrow> string list \<Rightarrow> nat option" where
  "walk_path fs fuel follow cur [] = Some cur"
| "walk_path fs fuel follow cur (c # cs) =
     (case inode_at fs cur of
        Some (Directory mode parent ents) \<Rightarrow>
          if c = ''.'' then walk_path fs fuel follow cur cs
          else if c = ''..'' then walk_path fs fuel follow parent cs
          else
            (case map_of ents c of
               None \<Rightarrow> None
             | Some ino \<Rightarrow>
                 (case inode_at fs ino of
                    None \<Rightarrow> None
                  | Some (Symlink target) \<Rightarrow>
                      if cs = [] \<and> \<not> follow then Some ino
                      else if fuel = 0 then None
                      else walk_path fs (fuel - 1) follow
                             (if target \<noteq> [] \<and> hd target = CHR ''/'' then 0 else cur)
                             (path_components target @ cs)
                  | Some other \<Rightarrow> walk_path fs fuel follow ino cs))
      | _ \<Rightarrow> None)"
  by pat_completeness auto
termination
  by (relation "measures [\<lambda>(fs, fuel, follow, cur, cs). fuel,
                          \<lambda>(fs, fuel, follow, cur, cs). length cs]") auto

definition resolve :: "filesys \<Rightarrow> bool \<Rightarrow> string \<Rightarrow> nat option" where
  "resolve fs follow path =
     (if path = [] then None else walk_path fs SYMLOOP_MAX follow 0 (path_components path))"

text \<open>The directory a path's last component is looked up in, and that component.\<close>

definition resolve_parent :: "filesys \<Rightarrow> string \<Rightarrow> (nat \<times> string) option" where
  "resolve_parent fs path =
     (let cs = strtok_all ''/'' path in
      if cs = [] then None
      else
        (case walk_path fs SYMLOOP_MAX True 0 (butlast cs @ [''.'']) of
           None \<Rightarrow> None
         | Some p \<Rightarrow> Some (p, last cs)))"

text \<open>
  Path resolution for \<open>open\<close> with \<open>O_CREAT\<close> (and without \<open>O_EXCL\<close> or
  \<open>O_NOFOLLOW\<close>): a symbolic link at the final component is followed, and when the
  final component of the path, or of the target of such a link, is missing from its
  directory, the result is that directory and the missing name, where the file is
  created. So a dangling symbolic link leads to the creation of its target.
\<close>

function walk_creat :: "filesys \<Rightarrow> nat \<Rightarrow> nat \<Rightarrow> string list \<Rightarrow> (nat + nat \<times> string) option" where
  "walk_creat fs fuel cur [] = Some (Inl cur)"
| "walk_creat fs fuel cur (c # cs) =
     (case inode_at fs cur of
        Some (Directory mode parent ents) \<Rightarrow>
          if c = ''.'' then walk_creat fs fuel cur cs
          else if c = ''..'' then walk_creat fs fuel parent cs
          else
            (case map_of ents c of
               None \<Rightarrow> if cs = [] then Some (Inr (cur, c)) else None
             | Some ino \<Rightarrow>
                 (case inode_at fs ino of
                    None \<Rightarrow> None
                  | Some (Symlink target) \<Rightarrow>
                      if fuel = 0 then None
                      else walk_creat fs (fuel - 1)
                             (if target \<noteq> [] \<and> hd target = CHR ''/'' then 0 else cur)
                             (path_components target @ cs)
                  | Some other \<Rightarrow> walk_creat fs fuel ino cs))
      | _ \<Rightarrow> None)"
  by pat_completeness auto
termination
  by (relation "measures [\<lambda>(fs, fuel, cur, cs). fuel,
                          \<lambda>(fs, fuel, cur, cs). length cs]") auto

subsection \<open>What the file system calls depend on besides the file system\<close>

text \<open>
  The file mode creation mask of the shell; the bytes that lie in memory behind the
  buffer \<open>final_dest\<close> of the call of the given recursion depth, up to the first NUL
  (what a read of the buffer as a C string goes on with when the buffer holds no NUL);
  how many of the \<open>count\<close> bytes a \<open>write\<close> to the file of the given inode at the given
  offset accepts (fewer than \<open>count\<close>: a short or failed write, as on a full disk); and
  whether the \<open>read\<close> of the file of the given inode at the given offset fails.
\<close>

record sysenv =
  umask :: nat
  beyond :: "nat \<Rightarrow> string"
  write_accepts :: "nat \<Rightarrow> nat \<Rightarrow> nat \<Rightarrow> nat"
  read_fails :: "nat \<Rightarrow> nat \<Rightarrow> bool"

text \<open>\<open>mode & ~umask\<close>, the permission bits of a file or directory that is created.\<close>

definition masked :: "nat \<Rightarrow> nat \<Rightarrow> nat" where
  "masked cmask mode = mode - (mode AND cmask)"

subsection \<open>The system calls of the tree operations\<close>

datatype file_type = S_IFREG | S_IFDIR | S_IFLNK

record stat =
  st_type :: file_type
  st_perm :: nat

definition S_ISDIR :: "stat \<Rightarrow> bool" where
  "S_ISDIR st \<longleftrightarrow> st_type st = S_IFDIR"

fun stat_of :: "inode \<Rightarrow> stat" where
  "stat_of (RegFile mode text) = \<lparr>st_type = S_IFREG, st_perm = mode\<rparr>"
| "stat_of (Directory mode parent ents) = \<lparr>st_type = S_IFDIR, st_perm = mode\<rparr>"
| "stat_of (Symlink target) = \<lparr>st_type = S_IFLNK, st_perm = 511\<rparr>"

text \<open>stat(2) follows a symbolic link at the final component, lstat(2) does not.\<close>

definition sys_stat :: "filesys \<Rightarrow> string \<Rightarrow> stat option" where
  "sys_stat fs path =
     (case resolve fs True path of
        None \<Rightarrow> None
      | Some ino \<Rightarrow> map_option stat_of (inode_at fs ino))"

definition sys_lstat :: "filesys \<Rightarrow> string \<Rightarrow> stat option" where
  "sys_lstat fs path =
     (case resolve fs False path of
        None \<Rightarrow> None
      | Some ino \<Rightarrow> map_option stat_of (inode_at fs ino))"

text \<open>
  opendir(3) with all the names readdir(3) will return: the directory is read as it is
  when it is opened.
\<close>

definition sys_opendir :: "filesys \<Rightarrow> string \<Rightarrow> string list option" where
  "sys_opendir fs path =
     (case resolve fs True path of
        None \<Rightarrow> None
      | Some ino \<Rightarrow>
          (case inode_at fs ino of
             Some (Directory mode parent ents) \<Rightarrow> Some (''.'' # ''..'' # map fst ents)
           | _ \<Rightarrow> None))"

definition remove_entry :: "string \<Rightarrow> (string \<times> nat) list \<Rightarrow> (string \<times> nat) list" where
  "remove_entry name ents = filter (\<lambda>(n, i). n \<noteq> name) ents"

text \<open>unlink(2): removes a name that is not a directory; the name itself, never a link's target.\<close>

definition sys_unlink :: "filesys \<Rightarrow> string \<Rightarrow> filesys option" where
  "sys_unlink fs path =
     (case resolve_parent fs path of
        None \<Rightarrow> None
      | Some (p, name) \<Rightarrow>
          (case inode_at fs p of
             Some (Directory mode parent ents) \<Rightarrow>
               (case map_of ents name of
                  None \<Rightarrow> None
                | Some ino \<Rightarrow>
                    (case inode_at fs ino of
                       None \<Rightarrow> None
                     | Some (Directory m q es) \<Rightarrow> None
                     | Some other \<Rightarrow>
                         Some (fs[p := Directory mode parent (remove_entry name ents)])))
           | _ \<Rightarrow> None))"

text \<open>rmdir(2): removes a name that is an empty directory; a symbolic link is not one.\<close>

definition sys_rmdir :: "filesys \<Rightarrow> string \<Rightarrow> filesys option" where
  "sys_rmdir fs path =
     (case resolve_parent fs path of
        None \<Rightarrow> None
      | Some (p, name) \<Rightarrow>
          (case inode_at fs p of
             Some (Directory mode parent ents) \<Rightarrow>
               (case map_of ents name of
                  None \<Rightarrow> None
                | Some ino \<Rightarrow>
                    (case inode_at fs ino of
                       Some (Directory m q []) \<Rightarrow>
                         Some (fs[p := Directory mode parent (remove_entry name ents)])
                     | _ \<Rightarrow> None))
           | _ \<Rightarrow> None))"

text \<open>
  mkdir(2), with the one error the caller tells from the others. The new directory has
  the mode as the mask leaves it.
\<close>

datatype mkdir_result = Created filesys | EEXIST | MkdirError

definition sys_mkdir :: "sysenv \<Rightarrow> filesys \<Rightarrow> string \<Rightarrow> nat \<Rightarrow> mkdir_result" where
  "sys_mkdir env fs path mode =
     (if path \<noteq> [] \<and> strtok_all ''/'' path = [] then EEXIST
      else
        (case resolve_parent fs path of
           None \<Rightarrow> MkdirError
         | Some (p, name) \<Rightarrow>
             (case inode_at fs p of
                Some (Directory m parent ents) \<Rightarrow>
                  if name = ''.'' \<or> name = ''..'' \<or> map_of ents name \<noteq> None then EEXIST
                  else Created ((fs @ [Directory (masked (umask env) mode) p []])
                                  [p := Directory m parent (ents @ [(name, length fs)])])
              | _ \<Rightarrow> MkdirError)))"

text \<open>\<open>open(path, O_RDONLY)\<close> of a regular file: the inode the descriptor refers to.\<close>

definition sys_open_read :: "filesys \<Rightarrow> string \<Rightarrow> nat option" where
  "sys_open_read fs path =
     (case resolve fs True path of
        None \<Rightarrow> None
      | Some ino \<Rightarrow>
          (case inode_at fs ino of
             Some (RegFile mode text) \<Rightarrow> Some ino
           | _ \<Rightarrow> None))"

text \<open>
  \<open>open(path, O_WRONLY | O_CREAT | O_TRUNC, mode)\<close>: an existing regular file is emptied;
  a missing one is created, with the mode as the mask leaves it, in the directory the
  resolution ends in. The result is the inode the descriptor refers to.
\<close>

definition sys_creat :: "sysenv \<Rightarrow> filesys \<Rightarrow> string \<Rightarrow> nat \<Rightarrow> (nat \<times> filesys) option" where
  "sys_creat env fs path mode =
     (if path = [] then None
      else
        (case walk_creat fs SYMLOOP_MAX 0 (path_components path) of
           None \<Rightarrow> None
         | Some (Inl ino) \<Rightarrow>
             (case inode_at fs ino of
                Some (RegFile m text) \<Rightarrow> Some (ino, fs[ino := RegFile m []])
              | _ \<Rightarrow> None)
         | Some (Inr (p, name)) \<Rightarrow>
             (case inode_at fs p of
                Some (Directory m parent ents) \<Rightarrow>
                  Some (length fs,
                        (fs @ [RegFile (masked (umask env) mode) []])
                          [p := Directory m parent (ents @ [(name, length fs)])])
              | _ \<Rightarrow> None)))"

text \<open>The bytes of a regular file, and a \<open>write\<close> of bytes at its end.\<close>

definition file_bytes :: "filesys \<Rightarrow> nat \<Rightarrow> string" where
  "file_bytes fs ino = (case inode_at fs ino of Some (RegFile m text) \<Rightarrow> text | _ \<Rightarrow> [])"

definition append_bytes :: "filesys \<Rightarrow> nat \<Rightarrow> string \<Rightarrow> filesys" where
  "append_bytes fs ino bytes =
     (case inode_at fs ino of
        Some (RegFile m text) \<Rightarrow> fs[ino := RegFile m (text @ bytes)]
      | _ \<Rightarrow> fs)"

section \<open>The tree operations: \<open>recursive_delete\<close> and \<open>recursive_copy\<close>\<close>

text \<open>What the tree operations and the built-ins print, one constructor per message.\<close>

datatype diag =
    DepthExceeded
  | StatFailed
  | OpendirFailed
  | PathTooLong
  | RmdirFailed
  | UnlinkFailed
  | CannotOverwrite
  | MkdirFailed
  | OpenSrcFailed
  | DestPathTooLong
  | OpenDestFailed
  | WriteFailed
  | ReadFailed
  | Usage
  | MvFailed

text \<open>
  \<open>snprintf(buf, sizeof(buf), "%s/%s", a, b) >= sizeof(buf)\<close>: snprintf returns the
  length of the whole text, so the test fails exactly when the joined path with its
  terminating NUL does not fit the buffer of \<open>MAX_PATH\<close> bytes.
\<close>

definition join_path :: "string \<Rightarrow> string \<Rightarrow> string option" where
  "join_path a b =
     (if length (a @ ''/'' @ b) \<ge> MAX_PATH then None else Some (a @ ''/'' @ b))"

text \<open>\<open>strrchr(src, '/') ? strrchr(src, '/') + 1 : src\<close>\<close>

definition base_name :: "string \<Rightarrow> string" where
  "base_name src = rev (takeWhile (\<lambda>c. c \<noteq> CHR ''/'') (rev src))"

text \<open>
  \<open>strncpy(final_dest, dest, sizeof(final_dest))\<close>, and the path a system call then
  reads from the buffer. A path shorter than the buffer is copied with its terminating
  NUL. Of a path of \<open>MAX_PATH\<close> bytes or more, strncpy copies the first \<open>MAX_PATH\<close>
  bytes and no NUL, and nothing adds one: the call that reads the buffer as a C string
  reads these bytes and goes on with the bytes \<open>junk\<close> that lie behind the buffer.
\<close>

definition strncpy_path :: "string \<Rightarrow> string \<Rightarrow> string" where
  "strncpy_path junk dest =
     (if length dest < MAX_PATH then dest else take MAX_PATH dest @ junk)"

text \<open>
  Lines 766-775 and 449-458, the same in \<open>recursive_copy\<close> and in the plain \<open>mv\<close>: the
  path in \<open>final_dest\<close>, or nothing when the joined path does not fit the buffer.
\<close>

definition final_dest :: "string \<Rightarrow> filesys \<Rightarrow> string \<Rightarrow> string \<Rightarrow> string option" where
  "final_dest junk fs src dest =
     (case sys_stat fs dest of
        Some dest_st \<Rightarrow>
          if S_ISDIR dest_st then join_path dest (base_name src)
          else Some (strncpy_path junk dest)
      | None \<Rightarrow> Some (strncpy_path junk dest))"

text \<open>
  Lines 673-713. The second function is the readdir loop of lines 692-703; its flag
  says whether the loop ran to its end (\<open>False\<close> when the function returned from inside
  the loop).
\<close>

function recursive_delete :: "string \<Rightarrow> nat \<Rightarrow> filesys \<Rightarrow> filesys \<times> diag list"
  and delete_entries :: "string \<Rightarrow> nat \<Rightarrow> string list \<Rightarrow> filesys \<Rightarrow> (filesys \<times> diag list) \<times> bool"
  where
  "recursive_delete path depth fs =
     (if depth > MAX_RECURSION then (fs, [DepthExceeded])
      else
        (case sys_stat fs path of
           None \<Rightarrow> (fs, [StatFailed])
         | Some st \<Rightarrow>
             if S_ISDIR st then
               (case sys_opendir fs path of
                  None \<Rightarrow> (fs, [OpendirFailed])
                | Some names \<Rightarrow>
                    (case delete_entries path depth names fs of
                       ((fs1, out), False) \<Rightarrow> (fs1, out)
                     | ((fs1, out), True) \<Rightarrow>
                         (case sys_rmdir fs1 path of
                            None \<Rightarrow> (fs1, out @ [RmdirFailed])
                          | Some fs2 \<Rightarrow> (fs2, out))))
             else
               (case sys_unlink fs path of
                  None \<Rightarrow> (fs, [UnlinkFailed])
                | Some fs1 \<Rightarrow> (fs1, []))))"
| "delete_entries path depth [] fs = ((fs, []), True)"
| "delete_entries path depth (d_name # names) fs =
     (if d_name = ''.'' \<or> d_name = ''..'' then delete_entries path depth names fs
      else
        (case join_path path d_name of
           None \<Rightarrow> ((fs, [PathTooLong]), False)
         | Some full_path \<Rightarrow>
             (case recursive_delete full_path (depth + 1) fs of
                (fs1, out1) \<Rightarrow>
                  (case delete_entries path depth names fs1 of
                     ((fs2, out2), finished) \<Rightarrow> ((fs2, out1 @ out2), finished)))))"
  by pat_completeness auto
termination
  by (relation "measures
        [\<lambda>x. case x of
                Inl (path, depth, fs) \<Rightarrow>
                  if depth > MAX_RECURSION then 0 else 2 * (MAX_RECURSION - depth) + 2
              | Inr (path, depth, names, fs) \<Rightarrow>
                  if depth > MAX_RECURSION then 1 else 2 * (MAX_RECURSION - depth) + 1,
         \<lambda>x. case x of
                Inl (path, depth, fs) \<Rightarrow> 0
              | Inr (path, depth, names, fs) \<Rightarrow> length names]")
     (auto simp: MAX_RECURSION_def)


text \<open>
  Lines 784-794, the loop of \<open>read\<close> and \<open>write\<close> with a buffer of 1024 bytes. \<open>data\<close>
  is what the source descriptor has still to deliver and \<open>off\<close> the offset of both
  descriptors. A write that accepts fewer bytes than it was given ends the copy with a
  message, the bytes it accepted being in the destination; a read that fails ends it
  with a message too.
\<close>

function copy_loop :: "sysenv \<Rightarrow> nat \<Rightarrow> nat \<Rightarrow> nat \<Rightarrow> string \<Rightarrow> filesys \<Rightarrow> filesys \<times> diag list" where
  "copy_loop env src_fd dest_fd off data fs =
     (if read_fails env src_fd off then (fs, [ReadFailed])
      else if data = [] then (fs, [])
      else
        (let buffer = take 1024 data;
             written = min (write_accepts env dest_fd off (length buffer)) (length buffer)
         in if written \<noteq> length buffer
            then (append_bytes fs dest_fd (take written buffer), [WriteFailed])
            else copy_loop env src_fd dest_fd (off + length buffer) (drop 1024 data)
                   (append_bytes fs dest_fd buffer)))"
  by pat_completeness auto
termination
  by (relation "measure (\<lambda>(env, src_fd, dest_fd, off, data, fs). length data)") auto

declare copy_loop.simps [simp del]

text \<open>
  Lines 759-797, the copy of one file that is not a directory. The destination is
  opened after the source, and the bytes are read after the destination was emptied:
  what the source descriptor delivers is the contents of the source file at that moment
  (when source and destination are the same file, nothing).
\<close>

definition copy_file :: "sysenv \<Rightarrow> string \<Rightarrow> string \<Rightarrow> nat \<Rightarrow> stat \<Rightarrow> filesys
    \<Rightarrow> filesys \<times> diag list" where
  "copy_file env src dest depth st fs =
     (case sys_open_read fs src of
        None \<Rightarrow> (fs, [OpenSrcFailed])
      | Some src_fd \<Rightarrow>
          (case final_dest (beyond env depth) fs src dest of
             None \<Rightarrow> (fs, [DestPathTooLong])
           | Some path \<Rightarrow>
               (case sys_creat env fs path (st_perm st) of
                  None \<Rightarrow> (fs, [OpenDestFailed])
                | Some (dest_fd, fs1) \<Rightarrow>
                    copy_loop env src_fd dest_fd 0 (file_bytes fs1 src_fd) fs1)))"

text \<open>Lines 718-798; the second function is the readdir loop of lines 745-757.\<close>

function recursive_copy :: "sysenv \<Rightarrow> string \<Rightarrow> string \<Rightarrow> nat \<Rightarrow> filesys \<Rightarrow> filesys \<times> diag list"
  and copy_entries :: "sysenv \<Rightarrow> string \<Rightarrow> string \<Rightarrow> nat \<Rightarrow> string list \<Rightarrow> filesys
    \<Rightarrow> filesys \<times> diag list"
  where
  "recursive_copy env src dest depth fs =
     (if depth > MAX_RECURSION then (fs, [DepthExceeded])
      else
        (case sys_stat fs src of
           None \<Rightarrow> (fs, [StatFailed])
         | Some st \<Rightarrow>
             if S_ISDIR st then
               (if (case sys_stat fs dest of
                      Some dest_st \<Rightarrow> \<not> S_ISDIR dest_st
                    | None \<Rightarrow> False)
                then (fs, [CannotOverwrite])
                else
                  (case sys_mkdir env fs dest (st_perm st) of
                     MkdirError \<Rightarrow> (fs, [MkdirFailed])
                   | made \<Rightarrow>
                       (let fs1 = (case made of Created fs' \<Rightarrow> fs' | _ \<Rightarrow> fs) in
                        case sys_opendir fs1 src of
                          None \<Rightarrow> (fs1, [OpendirFailed])
                        | Some names \<Rightarrow> copy_entries env src dest depth names fs1)))
             else copy_file env src dest depth st fs))"
| "copy_entries env src dest depth [] fs = (fs, [])"
| "copy_entries env src dest depth (d_name # names) fs =
     (if d_name = ''.'' \<or> d_name = ''..'' then copy_entries env src dest depth names fs
      else
        (case (join_path src d_name, join_path dest d_name) of
           (Some src_path, Some dest_path) \<Rightarrow>
             (case recursive_copy env src_path dest_path (depth + 1) fs of
                (fs1, out1) \<Rightarrow>
                  (case copy_entries env src dest depth names fs1 of
                     (fs2, out2) \<Rightarrow> (fs2, out1 @ out2)))
         | _ \<Rightarrow> (fs, [PathTooLong])))"
  by pat_completeness auto
termination
  by (relation "measures
        [\<lambda>x. case x of
                Inl (env, src, dest, depth, fs) \<Rightarrow>
                  if depth > MAX_RECURSION then 0 else 2 * (MAX_RECURSION - depth) + 2
              | Inr (env, src, dest, depth, names, fs) \<Rightarrow>
                  if depth > MAX_RECURSION then 1 else 2 * (MAX_RECURSION - depth) + 1,
         \<lambda>x. case x of
                Inl (env, src, dest, depth, fs) \<Rightarrow> 0
              | Inr (env, src, dest, depth, names, fs) \<Rightarrow> length names]")
     (auto simp: MAX_RECURSION_def)

declare recursive_delete.simps [simp del] delete_entries.simps [simp del]
declare recursive_copy.simps [simp del] copy_entries.simps [simp del]

subsection \<open>The built-ins that call the tree operations\<close>









definition execute_builtin_rm :: "string list \<Rightarrow> filesys \<Rightarrow> filesys \<times> diag list" where
  "execute_builtin_rm argv fs =
     (let recursive = (1 < length argv \<and> argv ! 1 = ''-r'');
          arg_start = (if recursive then 2 else 1)
      in if length argv \<le> arg_start then (fs, [Usage])
         else if recursive then recursive_delete (argv ! arg_start) 0 fs
         else
           (case sys_unlink fs (argv ! arg_start) of
              None \<Rightarrow> (fs, [UnlinkFailed])
            | Some fs1 \<Rightarrow> (fs1, [])))"

subsection \<open>Well-formed file systems\<close>



subsection \<open>Directories of regular files\<close>




subsection \<open>Trees of directories and regular files\<close>









subsection \<open>What a copy may change\<close>


subsection \<open>Concrete systems used in the examples\<close>

text \<open>
  A system with the usual mask 022 in which every read and write succeeds and the buffer
  happens to be followed by a NUL; the same with two bytes behind the buffer; and the
  same with a full disk, where no write accepts a byte.
\<close>

definition calm_env :: sysenv where
  "calm_env = \<lparr>umask = 18, beyond = (\<lambda>depth. []),
                write_accepts = (\<lambda>ino off count. count), read_fails = (\<lambda>ino off. False)\<rparr>"

definition littered_env :: sysenv where
  "littered_env = \<lparr>umask = 18, beyond = (\<lambda>depth. [CHR 0x01, CHR 0x7F]),
                    write_accepts = (\<lambda>ino off count. count), read_fails = (\<lambda>ino off. False)\<rparr>"


text \<open>The file systems of the examples.\<close>

text \<open>
  The directory \<open>data\<close> with the file \<open>keep.txt\<close>, a symbolic link \<open>link\<close> to it, and a
  file \<open>notes\<close>.
\<close>

definition linked_tree :: filesys where
  "linked_tree =
     [Directory 493 0 [(''data'', 1), (''link'', 3), (''notes'', 4)],
      Directory 493 0 [(''keep.txt'', 2)],
      RegFile 420 ''precious'',
      Symlink ''data'',
      RegFile 420 ''memo'']"

text \<open>
  Two nested directories whose names have 252 bytes each, beside a file \<open>notes\<close>, and
  a destination of 514 bytes that names the file \<open>copy.txt\<close> in the inner directory.
\<close>

definition deep_name :: string where
  "deep_name = replicate 252 (CHR ''d'')"

definition deep_tree :: filesys where
  "deep_tree =
     [Directory 493 0 [(deep_name, 1), (''notes'', 3)],
      Directory 493 0 [(deep_name, 2)],
      Directory 493 1 [],
      RegFile 420 ''memo'']"

definition long_dest :: string where
  "long_dest = deep_name @ ''/'' @ deep_name @ ''/copy.txt''"


section \<open>Properties of the parser\<close>

subsection \<open>The loops in closed form\<close>

lemma split_pipes_take: "split_pipes i ts = take (MAX_PIPES - 1 - i) ts"
  by (induction ts arbitrary: i) (auto simp: take_Cons' MAX_PIPES_def)

lemma append_paths_take: "append_paths as ps = as @ take (MAX_ARGS - 1 - length as) ps"
  by (induction ps arbitrary: as) (auto simp: take_Cons' MAX_ARGS_def)



subsection \<open>One iteration of the token walk, by cases\<close>

lemma walk_full:
  "\<not> length (args st) < MAX_ARGS - 1 \<Longrightarrow> walk m l prev (token # rest) (st, bg) = Inr (st, bg)"
  by simp

lemma walk_step:
  "length (args st) < MAX_ARGS - 1 \<Longrightarrow> \<not> is_op l prev token \<Longrightarrow>
   walk m l prev (token # rest) (st, bg) =
   walk m l False rest (st\<lparr>args := add_token m token (args st)\<rparr>, bg)"
  unfolding is_op_def by auto


lemma walk_op_err:
  "length (args st) < MAX_ARGS - 1 \<Longrightarrow> is_op l False token \<Longrightarrow>
   walk m l False (token # rest) (st, bg) \<noteq> Inl (UnexpectedToken t)"
  unfolding is_op_def
  apply (simp only: walk.simps if_True if_False)
  apply (cases "token = ''>''")
   apply (simp split: list.splits)
  apply (cases "token = ''>>''")
   apply (simp split: list.splits)
  apply (cases "token = ''<''")
   apply (simp split: list.splits)
  apply (cases "token = ''&'' \<and> l")
   apply simp
  apply simp
  done

subsection \<open>Invariants of the walk and of the segment loop\<close>




lemma walk_no_unexpected:
  "walk m l False toks (st, bg) \<noteq> Inl (UnexpectedToken t)"
proof (induction toks arbitrary: st)
  case Nil
  then show ?case by simp
next
  case (Cons token rest)
  consider (full) "\<not> length (args st) < MAX_ARGS - 1"
    | (op) "length (args st) < MAX_ARGS - 1" "is_op l False token"
    | (step) "length (args st) < MAX_ARGS - 1" "\<not> is_op l False token"
    by blast
  then show ?case
  proof cases
    case full
    then show ?thesis by (simp add: walk_full)
  next
    case op
    then show ?thesis by (rule walk_op_err)
  next
    case step
    show ?thesis by (simp only: walk_step [OF step] Cons.IH not_False_eq_True)
  qed
qed

lemma segments_Cons_empty:
  "trim seg = [] \<Longrightarrow> segments m n c (seg # segs) (sts, bg) = Inr (sts, bg)"
  by simp

lemma segments_Cons_walk:
  "trim seg \<noteq> [] \<Longrightarrow>
   walk m (c = n - 1) False (strtok_all blanks (trim seg)) (empty_stage, bg) = Inr (st, b) \<Longrightarrow>
   segments m n c (seg # segs) (sts, bg) = segments m n (Suc c) segs (sts @ [st], b)"
  by simp

lemma segments_Cons_err:
  "trim seg \<noteq> [] \<Longrightarrow>
   walk m (c = n - 1) False (strtok_all blanks (trim seg)) (empty_stage, bg) = Inl e \<Longrightarrow>
   segments m n c (seg # segs) (sts, bg) = Inl e"
  by simp




lemma segments_prefix:
  assumes "list_all2 (\<lambda>s st. trim s \<noteq> [] \<and>
             walk m False False (strtok_all blanks (trim s)) (empty_stage, False) = Inr (st, False)) pre new"
    and "c + length pre < n" and "trim seg = []"
  shows "segments m n c (pre @ seg # post) (sts, False) = Inr (sts @ new, False)"
  using assms
proof (induction pre new arbitrary: c sts rule: list_all2_induct)
  case Nil
  then show ?case by (simp add: segments_Cons_empty del: segments.simps)
next
  case (Cons s pre st new)
  from Cons.prems have nl: "c \<noteq> n - 1" by auto
  from Cons.hyps(1) nl have ne: "trim s \<noteq> []"
    and w: "walk m (c = n - 1) False (strtok_all blanks (trim s)) (empty_stage, False) = Inr (st, False)"
    by simp_all
  have "segments m n c ((s # pre) @ seg # post) (sts, False)
        = segments m n (Suc c) (pre @ seg # post) (sts @ [st], False)"
    using segments_Cons_walk [OF ne w] by simp
  also have "\<dots> = Inr ((sts @ [st]) @ new, False)"
    using Cons.prems by (intro Cons.IH) auto
  finally show ?case by simp
qed

lemma has_wildcard_not_op: "has_wildcard token \<Longrightarrow> \<not> is_op l False token"
  by (auto simp: has_wildcard_def is_op_def)




text \<open>The error of line 262 is never reported.\<close>

lemma segments_no_unexpected:
  "segments m n c segs (sts, bg) \<noteq> Inl (UnexpectedToken t)"
proof (induction segs arbitrary: c sts bg)
  case Nil
  then show ?case by simp
next
  case (Cons seg segs)
  show ?case
  proof (cases "trim seg = []")
    case True
    then show ?thesis by (simp add: segments_Cons_empty del: segments.simps)
  next
    case False
    show ?thesis
    proof (cases "walk m (c = n - 1) False (strtok_all blanks (trim seg)) (empty_stage, bg)")
      case (Inl e)
      with walk_no_unexpected [of m "c = n - 1" "strtok_all blanks (trim seg)" empty_stage bg t]
      have "e \<noteq> UnexpectedToken t" by auto
      with False Inl show ?thesis by (simp add: segments_Cons_err del: segments.simps)
    next
      case (Inr r)
      obtain st b where "r = (st, b)" by (cases r)
      with False Inr Cons.IH show ?thesis by (simp add: segments_Cons_walk del: segments.simps)
    qed
  qed
qed

subsection \<open>What strtok makes of the segments\<close>

text \<open>
  The tokens strtok returns for a single delimiter are the pieces between the delimiters
  that are not of length zero, in order.
\<close>

lemma pieces_not_Nil: "pieces d s \<noteq> []"
  by (induction s) (auto split: list.splits)

lemma strtok_all_Nil: "strtok_all delim [] = []"
  by (simp add: strtok_all.simps strtok_def)

lemma strtok_all_delim:
  "c \<in> set delim \<Longrightarrow> strtok_all delim (c # cs) = strtok_all delim cs"
  by (simp add: strtok_all.simps [of delim "c # cs"] strtok_all.simps [of delim cs] strtok_def)

lemma strtok_all_char:
  assumes "c \<notin> set delim"
  shows "strtok_all delim (c # cs) =
           (case cs of
              [] \<Rightarrow> [[c]]
            | x # xs \<Rightarrow>
                if x \<in> set delim then [c] # strtok_all delim xs
                else (case strtok_all delim cs of [] \<Rightarrow> [[c]] | t # r \<Rightarrow> (c # t) # r))"
proof (cases cs)
  case Nil
  with assms show ?thesis
    by (simp add: strtok_all.simps [of delim "[c]"] strtok_def strtok_all_Nil)
next
  case (Cons x xs)
  show ?thesis
  proof (cases "x \<in> set delim")
    case True
    with assms Cons show ?thesis
      by (simp add: strtok_all.simps [of delim "c # x # xs"] strtok_def)
  next
    case False
    with assms Cons show ?thesis
      by (simp add: strtok_all.simps [of delim "c # x # xs"]
          strtok_all.simps [of delim "x # xs"] strtok_def)
  qed
qed

lemma strtok_all_pieces:
  "strtok_all [d] s = filter (\<lambda>t. t \<noteq> []) (pieces d s)"
proof (induction s)
  case Nil
  show ?case by (simp add: strtok_all_Nil)
next
  case (Cons c cs)
  show ?case
  proof (cases "c = d")
    case True
    with Cons show ?thesis by (simp add: strtok_all_delim)
  next
    case False
    then have nd: "c \<notin> set [d]" by simp
    show ?thesis
    proof (cases cs)
      case Nil
      with False show ?thesis by (simp add: strtok_all_char [OF nd])
    next
      case (Cons x xs)
      note cs = this
      show ?thesis
      proof (cases "x = d")
        case True
        with False cs Cons.IH show ?thesis
          by (simp add: strtok_all_char [OF nd] strtok_all_delim)
      next
        case xd: False
        obtain f fs where f: "pieces d cs = f # fs"
          using pieces_not_Nil [of d cs] by (cases "pieces d cs") auto
        with cs xd have "f \<noteq> []" by (auto split: list.splits)
        with f Cons.IH have "strtok_all [d] cs = f # filter (\<lambda>t. t \<noteq> []) fs" by simp
        with False cs xd f show ?thesis by (simp add: strtok_all_char [OF nd])
      qed
    qed
  qed
qed

lemma pieces_free: "f \<in> set (pieces d s) \<Longrightarrow> d \<notin> set f"
  by (induction s arbitrary: f) (auto split: list.splits if_splits)

lemma pieces_plain: "d \<notin> set f \<Longrightarrow> pieces d f = [f]"
  by (induction f) auto

lemma pieces_append: "d \<notin> set f \<Longrightarrow> pieces d (f @ d # rest) = f # pieces d rest"
  by (induction f) auto

lemma pieces_join:
  "segs \<noteq> [] \<Longrightarrow> \<forall>f \<in> set segs. d \<notin> set f \<Longrightarrow> pieces d (join_pieces d segs) = segs"
  by (induction d segs rule: join_pieces.induct) (auto simp: pieces_plain pieces_append)

lemma join_pieces_pieces: "join_pieces d (pieces d s) = s"
proof (induction s)
  case Nil show ?case by simp
next
  case (Cons c cs)
  obtain f fs where f: "pieces d cs = f # fs"
    using pieces_not_Nil [of d cs] by (cases "pieces d cs") auto
  with Cons show ?case by (cases fs) auto
qed

lemma strtok_all_join:
  assumes "\<forall>f \<in> set segs. d \<notin> set f \<and> f \<noteq> []"
  shows "strtok_all [d] (join_pieces d segs) = segs"
proof (cases "segs = []")
  case True
  then show ?thesis by (simp add: strtok_all_Nil)
next
  case False
  with assms have "pieces d (join_pieces d segs) = segs" by (intro pieces_join) auto
  moreover from assms have "filter (\<lambda>t. t \<noteq> []) segs = segs" by (auto simp: filter_id_conv)
  ultimately show ?thesis by (simp add: strtok_all_pieces)
qed

lemma strtok_all_skips_empty:
  "strtok_all [d] (join_pieces d (filter (\<lambda>t. t \<noteq> []) (pieces d s))) = strtok_all [d] s"
proof -
  have "strtok_all [d] (join_pieces d (filter (\<lambda>t. t \<noteq> []) (pieces d s)))
        = filter (\<lambda>t. t \<noteq> []) (pieces d s)"
    by (rule strtok_all_join) (auto dest: pieces_free)
  then show ?thesis by (simp add: strtok_all_pieces)
qed

section \<open>The claims about the parser\<close>

subsection \<open>C2: a token after a redirection clause\<close>

text \<open>
  C2 says that a segment in which a redirection operator and its file name are
  followed by a further token is a parse error. The source has the check (line 261,
  with the message "unexpected token ... after redirection"), but each redirection
  branch leaves the token loop with \<open>break\<close> right after it has set
  \<open>prev_was_redirect\<close>, so the check is never reached with the flag set. On
  the line \<open>ls > out extra\<close> the parser succeeds, for every file system: the stage is
  \<open>ls\<close> with output file \<open>out\<close>, and \<open>extra\<close> is dropped without a message. And
  no line at all makes the parser report that error.
\<close>

theorem redirection_then_token_is_accepted:
  "parse_command matches ''ls > out extra'' =
     Inr \<lparr>stages = [\<lparr>args = [''ls''], input_file = None, output_file = Some ''out'',
                      appends = False\<rparr>],
          background = False\<rparr>
   \<and> parse_command matches line \<noteq> Inl (UnexpectedToken token)"
proof
  show "parse_command matches ''ls > out extra'' =
     Inr \<lparr>stages = [\<lparr>args = [''ls''], input_file = None, output_file = Some ''out'',
                      appends = False\<rparr>],
          background = False\<rparr>"
    by code_simp
next
  show "parse_command matches line \<noteq> Inl (UnexpectedToken token)"
    using segments_no_unexpected
    by (auto simp: parse_command_def Let_def split: sum.splits if_splits)
qed

subsection \<open>C3: the stage limit and the argument limit\<close>




subsection \<open>C7: empty segments\<close>

text \<open>
  The line \<open>a||b\<close> has an empty segment between its two pipe delimiters. The parser
  does not end the pipeline at \<open>a\<close>: strtok never returns an empty token, so the
  result has the two stages \<open>a\<close> and \<open>b\<close>.
\<close>

theorem adjacent_pipes_counterexample:
  "parse_command no_matches ''a||b'' =
     Inr \<lparr>stages = [\<lparr>args = [''a''], input_file = None, output_file = None, appends = False\<rparr>,
                     \<lparr>args = [''b''], input_file = None, output_file = None, appends = False\<rparr>],
          background = False\<rparr>"
  by code_simp

text \<open>
  C7, as amended. The tokens the split of a line on the pipe delimiter returns are
  exactly the pipe-separated segments of the line that are not of length zero, in the
  order of the line: a segment of length zero (between adjacent delimiters, before a
  leading or after a trailing delimiter) is skipped. It truncates nothing: the line
  parses exactly as the line without its segments of length zero does. Let \<open>seg\<close> be
  one of the first nine segments of non-zero length, made of blanks only, and let the
  segments \<open>pre\<close> of non-zero length before it be non-blank and parse without error to
  the stages \<open>sts\<close> (none of them is the last segment, so \<open>&\<close> is an ordinary argument
  in them). Then \<open>seg\<close> raises no error: the parse is exactly the stages \<open>sts\<close>, in
  the foreground, whatever follows \<open>seg\<close>; and when nothing precedes \<open>seg\<close> the parse
  fails with zero stages.
\<close>

theorem blank_segment_truncates:
  "strtok_all ''|'' line = filter (\<lambda>s. s \<noteq> []) (pipe_segments line)
   \<and> parse_command matches (join_pipes (filter (\<lambda>s. s \<noteq> []) (pipe_segments line)))
       = parse_command matches line
   \<and> (take (MAX_PIPES - 1) (filter (\<lambda>s. s \<noteq> []) (pipe_segments line)) = pre @ seg # post \<longrightarrow>
      trim seg = [] \<longrightarrow>
      list_all2 (\<lambda>s st. trim s \<noteq> [] \<and>
            walk matches False False (strtok_all blanks (trim s)) (empty_stage, False)
              = Inr (st, False)) pre sts \<longrightarrow>
      parse_command matches line =
           (if pre = [] then Inl NoStages else Inr \<lparr>stages = sts, background = False\<rparr>))"
proof -
  have a: "strtok_all ''|'' line = filter (\<lambda>s. s \<noteq> []) (pipe_segments line)"
    by (simp add: pipe_segments_def strtok_all_pieces)
  have "strtok_all ''|'' (join_pipes (filter (\<lambda>s. s \<noteq> []) (pipe_segments line)))
        = strtok_all ''|'' line"
    unfolding pipe_segments_def join_pipes_def by (rule strtok_all_skips_empty)
  then have b: "parse_command matches (join_pipes (filter (\<lambda>s. s \<noteq> []) (pipe_segments line)))
       = parse_command matches line"
    by (simp add: parse_command_def)
  have c: "parse_command matches line =
           (if pre = [] then Inl NoStages else Inr \<lparr>stages = sts, background = False\<rparr>)"
    if s: "take (MAX_PIPES - 1) (filter (\<lambda>s. s \<noteq> []) (pipe_segments line)) = pre @ seg # post"
      and t: "trim seg = []"
      and l: "list_all2 (\<lambda>s st. trim s \<noteq> [] \<and>
            walk matches False False (strtok_all blanks (trim s)) (empty_stage, False)
              = Inr (st, False)) pre sts"
  proof -
    let ?segs = "split_pipes 0 (strtok_all ''|'' line)"
    have segs: "?segs = pre @ seg # post" using s a by (simp add: split_pipes_take)
    have "segments matches (length ?segs) 0 (pre @ seg # post) ([], False) = Inr ([] @ sts, False)"
      using l _ t by (rule segments_prefix) (simp add: segs)
    moreover from l have "sts = [] \<longleftrightarrow> pre = []"
      by (auto dest: list_all2_lengthD)
    ultimately show ?thesis
      by (simp add: parse_command_def Let_def segs del: segments.simps)
  qed
  from a b c show ?thesis by blast
qed

theorem blank_segment_truncates_witness:
  "pipe_segments ''|ls -l || | wc'' = ['''', ''ls -l '', '''', '' '', '' wc'']
   \<and> take (MAX_PIPES - 1) (filter (\<lambda>s. s \<noteq> []) (pipe_segments ''|ls -l || | wc''))
       = [''ls -l ''] @ '' '' # ['' wc'']
   \<and> trim '' '' = []
   \<and> trim ''ls -l '' \<noteq> []
   \<and> walk no_matches False False (strtok_all blanks (trim ''ls -l '')) (empty_stage, False)
       = Inr (empty_stage\<lparr>args := [''ls'', ''-l'']\<rparr>, False)
   \<and> strtok_all ''|'' ''|ls -l || | wc'' = [''ls -l '', '' '', '' wc'']
   \<and> parse_command no_matches ''|ls -l || | wc''
       = Inr \<lparr>stages = [empty_stage\<lparr>args := [''ls'', ''-l'']\<rparr>], background = False\<rparr>"
proof -
  have h0: "pipe_segments ''|ls -l || | wc'' = ['''', ''ls -l '', '''', '' '', '' wc'']"
    by code_simp
  have h1: "take (MAX_PIPES - 1) (filter (\<lambda>s. s \<noteq> []) (pipe_segments ''|ls -l || | wc''))
              = [''ls -l ''] @ '' '' # ['' wc'']"
    by code_simp
  have h2: "trim '' '' = []" by code_simp
  have h3: "trim ''ls -l '' \<noteq> []" by code_simp
  have h4: "walk no_matches False False (strtok_all blanks (trim ''ls -l '')) (empty_stage, False)
       = Inr (empty_stage\<lparr>args := [''ls'', ''-l'']\<rparr>, False)"
    by code_simp
  have h6: "strtok_all ''|'' ''|ls -l || | wc'' = [''ls -l '', '' '', '' wc'']"
    by code_simp
  from h3 h4 have h5: "list_all2 (\<lambda>s st. trim s \<noteq> [] \<and>
            walk no_matches False False (strtok_all blanks (trim s)) (empty_stage, False)
              = Inr (st, False)) [''ls -l ''] [empty_stage\<lparr>args := [''ls'', ''-l'']\<rparr>]"
    by simp
  from blank_segment_truncates [of "''|ls -l || | wc''" no_matches "[''ls -l '']" "'' ''"
      "['' wc'']" "[empty_stage\<lparr>args := [''ls'', ''-l'']\<rparr>]"] h1 h2 h5
  have "parse_command no_matches ''|ls -l || | wc''
       = Inr \<lparr>stages = [empty_stage\<lparr>args := [''ls'', ''-l'']\<rparr>], background = False\<rparr>"
    by simp
  with h0 h1 h2 h3 h4 h6 show ?thesis by simp
qed

subsection \<open>C8: glob expansion\<close>

text \<open>
  In a directory of 72 files the token \<open>*\<close> of the line \<open>ls *\<close> matches all 72, but
  it is not replaced by the matches: the stage gets \<open>ls\<close> and the first 62 of them,
  and the other ten are dropped.
\<close>

theorem crowded_glob_counterexample:
  "length crowded_names = 72 \<and>
   parse_command crowded_directory ''ls *'' =
     Inr \<lparr>stages = [\<lparr>args = ''ls'' # take 62 crowded_names, input_file = None,
                      output_file = None, appends = False\<rparr>],
          background = False\<rparr>"
  by code_simp

text \<open>
  C8, as amended: when the walk reaches a token with a glob metacharacter as an
  argument (the stage has room, so fewer than 63 arguments so far), it goes on with the
  rest of the tokens after appending, to the arguments of the stage: the token itself,
  unchanged, when the pattern matches nothing (and also when glob fails); otherwise the
  matches in sorted order, but only as many of them as fit below the limit of 63
  arguments of a stage.
\<close>

theorem glob_token_expansion:
  assumes "has_wildcard token" and "length (args st) < MAX_ARGS - 1"
  shows "walk matches is_last False (token # rest) (st, bg) =
         walk matches is_last False rest
           (st\<lparr>args := args st @ take (MAX_ARGS - 1 - length (args st))
                     (case matches token of
                        None \<Rightarrow> [token]
                      | Some ms \<Rightarrow> if ms = [] then [token] else sort ms)\<rparr>, bg)"
proof -
  from assms(1) have nop: "\<not> is_op is_last False token" by (rule has_wildcard_not_op)
  have "add_token matches token (args st)
        = args st @ take (MAX_ARGS - 1 - length (args st))
                     (case matches token of
                        None \<Rightarrow> [token]
                      | Some ms \<Rightarrow> if ms = [] then [token] else sort ms)"
    using assms by (auto simp: add_token_def glob_nocheck_def append_paths_take take_Cons'
        split: option.splits)
  with walk_step [OF assms(2) nop] show ?thesis by simp
qed

theorem glob_token_expansion_witness:
  "has_wildcard ''*.c'' \<and> length (args (empty_stage\<lparr>args := [''cc'']\<rparr>)) < MAX_ARGS - 1
   \<and> walk two_sources True False [''*.c'', ''*.h''] (empty_stage\<lparr>args := [''cc'']\<rparr>, False)
       = Inr (empty_stage\<lparr>args := [''cc'', ''a.c'', ''b.c'', ''*.h'']\<rparr>, False)"
proof -
  have h1: "has_wildcard ''*.c''" by code_simp
  have h2: "length (args (empty_stage\<lparr>args := [''cc'']\<rparr>)) < MAX_ARGS - 1"
    by (simp add: MAX_ARGS_def)
  have h3: "walk two_sources True False [''*.h'']
              (empty_stage\<lparr>args := [''cc'']\<rparr>
                 \<lparr>args := args (empty_stage\<lparr>args := [''cc'']\<rparr>)
                    @ take (MAX_ARGS - 1 - length (args (empty_stage\<lparr>args := [''cc'']\<rparr>)))
                       (case two_sources ''*.c'' of
                          None \<Rightarrow> [''*.c'']
                        | Some ms \<Rightarrow> if ms = [] then [''*.c''] else sort ms)\<rparr>, False)
            = Inr (empty_stage\<lparr>args := [''cc'', ''a.c'', ''b.c'', ''*.h'']\<rparr>, False)"
    by code_simp
  from glob_token_expansion [OF h1 h2, of two_sources True "[''*.h'']" False] h1 h2 h3
  show ?thesis by simp
qed

subsection \<open>C9: the background token\<close>




section \<open>The claim about the reaper\<close>

subsection \<open>C1: what the SIGCHLD handler does\<close>

text \<open>
  With one terminated child the handler calls \<open>printf\<close>, which is buffered output and
  not safe in a signal handler: not every call it makes is async-signal-safe.
\<close>

theorem handler_prints_counterexample:
  "sigchld_handler one_zombie =
     ([], [Waitpid 42, Printf (''[PID 42] Completed'' @ [CHR 0x0A]), Waitpid (- 1)])
   \<and> \<not> list_all async_signal_safe (snd (sigchld_handler one_zombie))"
  by code_simp

text \<open>
  C1, as amended: the handler reaps, in a loop of non-blocking waits, every child that
  has terminated, and it reports each of them itself, from inside the handler, with a
  \<open>printf\<close> of the line "[PID n] Completed" right after the \<open>waitpid\<close> that reaped it;
  the children that still run stay in the table, and the loop ends with the first
  \<open>waitpid\<close> that returns 0 or -1. Nothing is recorded for the main loop: the handler
  returns nothing but the table.
\<close>

theorem handler_reaps_and_prints:
  assumes "\<forall>(pid, s) \<in> set procs. 0 < pid"
  shows "sigchld_handler procs =
           (filter (\<lambda>(pid, s). s \<noteq> Terminated) procs,
            concat (map (\<lambda>(pid, s). [Waitpid (int pid), Printf (completed_message (int pid))])
                        (filter (\<lambda>(pid, s). s = Terminated) procs))
            @ [Waitpid (if filter (\<lambda>(pid, s). s \<noteq> Terminated) procs = [] then - 1 else 0)])"
  using assms
proof (induction procs rule: length_induct)
  case (1 procs)
  show ?case
  proof (cases "reap_first procs")
    case None
    then have none: "filter (\<lambda>(pid, s). s = Terminated) procs = []"
      by (simp add: reap_first_None)
    then have all: "filter (\<lambda>(pid, s). s \<noteq> Terminated) procs = procs"
      by (auto simp: filter_empty_conv filter_id_conv)
    show ?thesis
      by (subst sigchld_handler.simps) (simp add: waitpid_any_nohang_def None none all)
  next
    case (Some r)
    obtain p procs' where r: "r = (p, procs')" by (cases r)
    from Some r have rf: "reap_first procs = Some (p, procs')" by simp
    note facts = reap_first_Some [OF rf]
    from facts have "(p, Terminated) \<in> set (filter (\<lambda>(pid, s). s = Terminated) procs)" by simp
    with "1.prems" have pos: "0 < p" by auto
    from facts "1.prems" have pre: "\<forall>(pid, s) \<in> set procs'. 0 < pid" by blast
    from facts have "length procs' < length procs" by simp
    with "1.IH" pre have
      ih: "sigchld_handler procs' =
           (filter (\<lambda>(pid, s). s \<noteq> Terminated) procs',
            concat (map (\<lambda>(pid, s). [Waitpid (int pid), Printf (completed_message (int pid))])
                        (filter (\<lambda>(pid, s). s = Terminated) procs'))
            @ [Waitpid (if filter (\<lambda>(pid, s). s \<noteq> Terminated) procs' = [] then - 1 else 0)])"
      by blast
    show ?thesis
      by (subst sigchld_handler.simps) (simp add: waitpid_any_nohang_def rf pos ih facts)
  qed
qed

theorem handler_reaps_and_prints_witness:
  "list_all (\<lambda>(pid, s). 0 < pid) three_children
   \<and> sigchld_handler three_children =
       ([(8, Running)],
        [Waitpid 7, Printf (''[PID 7] Completed'' @ [CHR 0x0A]),
         Waitpid 9, Printf (''[PID 9] Completed'' @ [CHR 0x0A]), Waitpid 0])"
proof -
  have h: "\<forall>(pid, s) \<in> set three_children. 0 < pid" by (simp add: three_children_def)
  have e: "completed_message 7 = ''[PID 7] Completed'' @ [CHR 0x0A]"
     "completed_message 9 = ''[PID 9] Completed'' @ [CHR 0x0A]" by code_simp+
  from handler_reaps_and_prints [OF h] h e show ?thesis
    by (simp add: three_children_def list_all_iff)
qed

section \<open>Properties of the executor\<close>

lemma fd_lookup_install:
  "fd_lookup (fd_install tab fd obj) fd' = (if fd' = fd then Some obj else fd_lookup tab fd')"
  by (auto simp: fd_lookup_def fd_install_def nth_append nth_list_update)

lemma fd_lookup_close:
  "fd_lookup (sys_close fd tab) fd' = (if fd' = fd then None else fd_lookup tab fd')"
  by (auto simp: fd_lookup_def sys_close_def)

lemma fd_lookup_close_all:
  "fd' \<notin> set fds \<Longrightarrow> fd_lookup (close_all fds tab) fd' = fd_lookup tab fd'"
  by (induction fds arbitrary: tab) (auto simp: fd_lookup_close)

lemma fd_lookup_close_if_open:
  "fdo \<noteq> Some fd' \<Longrightarrow> fd_lookup (close_if_open fdo tab) fd' = fd_lookup tab fd'"
  by (cases fdo) (auto simp: fd_lookup_close)

lemma lowest_free_closed: "fd_lookup tab (lowest_free tab) = None"
proof (cases "lowest_free tab < length tab")
  case True
  then have "\<not> (tab ! lowest_free tab \<noteq> None)"
    unfolding lowest_free_def by (rule nth_length_takeWhile)
  with True show ?thesis by (simp add: fd_lookup_def)
next
  case False
  then show ?thesis by (simp add: fd_lookup_def)
qed

lemma lowest_free_not_open: "fd_lookup tab fd \<noteq> None \<Longrightarrow> lowest_free tab \<noteq> fd"
  using lowest_free_closed by metis

lemma fd_lookup_dup2_other:
  "fd' \<noteq> newfd \<Longrightarrow> fd_lookup (sys_dup2 oldfd newfd tab) fd' = fd_lookup tab fd'"
  by (auto simp: sys_dup2_def fd_lookup_install split: option.splits)

lemma fd_lookup_dup2_open:
  "fd_lookup tab fd' \<noteq> None \<Longrightarrow> fd_lookup (sys_dup2 oldfd newfd tab) fd' \<noteq> None"
  by (auto simp: sys_dup2_def fd_lookup_install split: option.splits)

lemma fd_lookup_dup2_target:
  "fd_lookup tab oldfd = Some obj \<Longrightarrow> fd_lookup (sys_dup2 oldfd newfd tab) newfd = Some obj"
  by (auto simp: sys_dup2_def fd_lookup_install)

text \<open>A file opened while descriptors 0 and 1 are open gets neither of them.\<close>

lemma sys_open_fresh:
  assumes "sys_open env path flags tab = Some (fd, tab')"
    and "fd_lookup tab 0 \<noteq> None" and "fd_lookup tab 1 \<noteq> None"
  shows "fd \<noteq> 0 \<and> fd \<noteq> 1 \<and> fd_lookup tab' fd = Some (OpenFile path flags)
         \<and> fd_lookup tab' 0 = fd_lookup tab 0 \<and> fd_lookup tab' 1 = fd_lookup tab 1"
proof -
  from assms(1) have fd: "fd = lowest_free tab"
    and tab': "tab' = fd_install tab fd (OpenFile path flags)"
    by (auto simp: sys_open_def split: if_splits)
  have "fd \<noteq> 0" "fd \<noteq> 1"
    unfolding fd by (rule lowest_free_not_open, rule assms)+
  then show ?thesis by (simp add: tab' fd_lookup_install)
qed

lemma sys_pipe_fresh:
  assumes "sys_pipe env k tab = Some (r, w, tab')"
    and "fd_lookup tab 0 \<noteq> None" and "fd_lookup tab 1 \<noteq> None"
  shows "r \<noteq> 0 \<and> r \<noteq> 1 \<and> w \<noteq> 0 \<and> w \<noteq> 1
         \<and> fd_lookup tab' 0 = fd_lookup tab 0 \<and> fd_lookup tab' 1 = fd_lookup tab 1"
proof -
  let ?t1 = "fd_install tab r (PipeRead k)"
  from assms(1) have r: "r = lowest_free tab" and w: "w = lowest_free ?t1"
    and tab': "tab' = fd_install ?t1 w (PipeWrite k)"
    by (auto simp: sys_pipe_def Let_def split: if_splits)
  have r01: "r \<noteq> 0" "r \<noteq> 1"
    unfolding r by (rule lowest_free_not_open, rule assms)+
  with assms(2,3) have "fd_lookup ?t1 0 \<noteq> None" "fd_lookup ?t1 1 \<noteq> None"
    by (simp_all add: fd_lookup_install)
  then have "w \<noteq> 0" "w \<noteq> 1"
    unfolding w by (simp_all add: lowest_free_not_open)
  with r01 show ?thesis by (simp add: tab' fd_lookup_install)
qed

lemma create_pipes_fresh:
  assumes "create_pipes env ks pipefd tab = Inr (pipefd', tab')"
    and "fd_lookup tab 0 \<noteq> None" and "fd_lookup tab 1 \<noteq> None"
    and "0 \<notin> set pipefd" and "1 \<notin> set pipefd"
  shows "0 \<notin> set pipefd' \<and> 1 \<notin> set pipefd'
         \<and> fd_lookup tab' 0 = fd_lookup tab 0 \<and> fd_lookup tab' 1 = fd_lookup tab 1"
  using assms
proof (induction ks arbitrary: pipefd tab)
  case Nil
  then show ?case by simp
next
  case (Cons k ks)
  from Cons.prems(1) obtain r w t where p: "sys_pipe env k tab = Some (r, w, t)"
    and rest: "create_pipes env ks (pipefd @ [r, w]) t = Inr (pipefd', tab')"
    by (auto split: option.splits)
  note f = sys_pipe_fresh [OF p Cons.prems(2,3)]
  from f Cons.prems have "fd_lookup t 0 \<noteq> None" "fd_lookup t 1 \<noteq> None"
    "0 \<notin> set (pipefd @ [r, w])" "1 \<notin> set (pipefd @ [r, w])"
    by auto
  from Cons.IH [OF rest this] f show ?case by simp
qed

text \<open>
  The two redirection steps of a child: a redirection file, when the stage has one, is
  what the standard descriptor refers to afterwards; descriptors 0 and 1 stay open, and
  the descriptor of the opened file is neither of them.
\<close>

lemma pipe_child_input_wiring:
  assumes "pipe_child_input env st pipefd i tab = Some (input_fd, tab1)"
    and "fd_lookup tab 0 \<noteq> None" and "fd_lookup tab 1 \<noteq> None"
  shows "input_fd \<noteq> Some 0 \<and> input_fd \<noteq> Some 1
         \<and> fd_lookup tab1 0 \<noteq> None \<and> fd_lookup tab1 1 \<noteq> None
         \<and> (\<forall>f. input_file st = Some f \<longrightarrow> fd_lookup tab1 0 = Some (OpenFile f ReadOnly))"
proof (cases "input_file st")
  case None
  with assms(1) have i: "input_fd = None"
    and t: "tab1 = tab \<or> tab1 = sys_dup2 (pipefd ! ((i - 1) * 2)) 0 tab"
    by (auto simp: pipe_child_input_def split: if_splits)
  from t assms(2,3) have "fd_lookup tab1 0 \<noteq> None" "fd_lookup tab1 1 \<noteq> None"
    using fd_lookup_dup2_open by blast+
  with i None show ?thesis by simp
next
  case (Some f)
  with assms(1) obtain fd t where o: "sys_open env f ReadOnly tab = Some (fd, t)"
    and i: "input_fd = Some fd" and t: "tab1 = sys_dup2 fd 0 t"
    by (auto simp: pipe_child_input_def split: option.splits)
  note fr = sys_open_fresh [OF o assms(2,3)]
  from fr have "fd_lookup tab1 0 = Some (OpenFile f ReadOnly)"
    unfolding t by (intro fd_lookup_dup2_target) simp
  moreover from fr assms(3) have "fd_lookup tab1 1 \<noteq> None"
    unfolding t by (simp add: fd_lookup_dup2_other)
  ultimately show ?thesis using fr i Some by simp
qed

lemma pipe_child_output_wiring:
  assumes "pipe_child_output env st pipefd i n tab = Some (output_fd, tab2)"
    and "fd_lookup tab 0 \<noteq> None" and "fd_lookup tab 1 \<noteq> None"
  shows "output_fd \<noteq> Some 0 \<and> output_fd \<noteq> Some 1
         \<and> fd_lookup tab2 0 = fd_lookup tab 0
         \<and> (\<forall>g. output_file st = Some g \<longrightarrow>
               fd_lookup tab2 1 = Some (OpenFile g (if appends st then WriteAppend else WriteTrunc)))"
proof (cases "output_file st")
  case None
  with assms show ?thesis
    by (auto simp: pipe_child_output_def fd_lookup_dup2_other split: if_splits)
next
  case (Some g)
  let ?flags = "if appends st then WriteAppend else WriteTrunc"
  from Some assms(1) obtain fd t where o: "sys_open env g ?flags tab = Some (fd, t)"
    and i: "output_fd = Some fd" and t: "tab2 = sys_dup2 fd 1 t"
    by (auto simp: pipe_child_output_def split: option.splits)
  note fr = sys_open_fresh [OF o assms(2,3)]
  from fr have "fd_lookup tab2 1 = Some (OpenFile g ?flags)"
    unfolding t by (intro fd_lookup_dup2_target) simp
  moreover from fr have "fd_lookup tab2 0 = fd_lookup tab 0"
    unfolding t by (simp add: fd_lookup_dup2_other)
  ultimately show ?thesis using fr i Some by simp
qed

lemma execvp_Exec:
  "execvp env argv tab session = Exec argv' ctab s \<Longrightarrow> ctab = tab"
  by (auto simp: execvp_def split: list.splits if_splits)

lemma pipe_child_wiring:
  assumes "pipe_child env sts pipefd i tab = Exec argv ctab s"
    and "fd_lookup tab 0 \<noteq> None" and "fd_lookup tab 1 \<noteq> None"
    and "0 \<notin> set pipefd" and "1 \<notin> set pipefd"
  shows "(\<forall>f. input_file (sts ! i) = Some f \<longrightarrow> fd_lookup ctab 0 = Some (OpenFile f ReadOnly))
       \<and> (\<forall>g. output_file (sts ! i) = Some g \<longrightarrow>
             fd_lookup ctab 1
               = Some (OpenFile g (if appends (sts ! i) then WriteAppend else WriteTrunc)))"
proof -
  from assms(1) obtain input_fd tab1 output_fd tab2 where
    inp: "pipe_child_input env (sts ! i) pipefd i tab = Some (input_fd, tab1)"
    and out: "pipe_child_output env (sts ! i) pipefd i (length sts) tab1 = Some (output_fd, tab2)"
    and ex: "execvp env (args (sts ! i))
               (close_if_open output_fd (close_if_open input_fd (close_all pipefd tab2))) False
             = Exec argv ctab s"
    by (auto simp: pipe_child_def split: option.splits)
  note wi = pipe_child_input_wiring [OF inp assms(2,3)]
  from wi have open1: "fd_lookup tab1 0 \<noteq> None" "fd_lookup tab1 1 \<noteq> None" by simp_all
  note wo = pipe_child_output_wiring [OF out open1]
  from execvp_Exec [OF ex]
  have ctab: "ctab = close_if_open output_fd (close_if_open input_fd (close_all pipefd tab2))" .
  from wi wo assms(4,5) have keep: "fd_lookup ctab 0 = fd_lookup tab2 0"
    "fd_lookup ctab 1 = fd_lookup tab2 1"
    unfolding ctab by (simp_all add: fd_lookup_close_if_open fd_lookup_close_all)
  from wi wo keep show ?thesis by simp
qed

lemma fork_children_nth:
  "fork_children env sts pipefd tab is = (cs, ok) \<Longrightarrow> j < length cs \<Longrightarrow>
     j < length is \<and> cs ! j = pipe_child env sts pipefd (is ! j) tab"
proof (induction "is" arbitrary: cs ok j)
  case Nil
  then show ?case by simp
next
  case (Cons i "is")
  show ?case
  proof (cases "fork_ok env i")
    case False
    with Cons.prems show ?thesis by simp
  next
    case True
    with Cons.prems(1) obtain cs' where r: "fork_children env sts pipefd tab is = (cs', ok)"
      and cs: "cs = pipe_child env sts pipefd i tab # cs'"
      by (auto split: prod.splits)
    show ?thesis
    proof (cases j)
      case 0
      with cs show ?thesis by simp
    next
      case (Suc j')
      with Cons.prems(2) cs have "j' < length cs'" by simp
      from Cons.IH [OF r this] Suc cs show ?thesis by simp
    qed
  qed
qed

lemma system_child_wiring:
  assumes "system_child env st bg tab = Exec argv ctab s"
    and "fd_lookup tab 0 \<noteq> None" and "fd_lookup tab 1 \<noteq> None"
  shows "(\<forall>f. input_file st = Some f \<longrightarrow> fd_lookup ctab 0 = Some (OpenFile f ReadOnly))
       \<and> (\<forall>g. output_file st = Some g \<longrightarrow>
             fd_lookup ctab 1 = Some (OpenFile g (if appends st then WriteAppend else WriteTrunc)))"
proof -
  have "system_child env st bg tab
        = (case pipe_child_input env st [] 0 tab of
             None \<Rightarrow> Exited 1
           | Some (input_fd, tab1) \<Rightarrow>
               (case pipe_child_output env st [] 0 1 tab1 of
                  None \<Rightarrow> Exited 1
                | Some (output_fd, tab2) \<Rightarrow>
                    execvp env (args st)
                      (close_if_open output_fd (close_if_open input_fd tab2)) bg))"
    by (auto simp: system_child_def pipe_child_input_def pipe_child_output_def
        split: option.splits)
  with assms(1) obtain input_fd tab1 output_fd tab2 where
    inp: "pipe_child_input env st [] 0 tab = Some (input_fd, tab1)"
    and out: "pipe_child_output env st [] 0 1 tab1 = Some (output_fd, tab2)"
    and ex: "execvp env (args st) (close_if_open output_fd (close_if_open input_fd tab2)) bg
             = Exec argv ctab s"
    by (auto split: option.splits)
  note wi = pipe_child_input_wiring [OF inp assms(2,3)]
  from wi have open1: "fd_lookup tab1 0 \<noteq> None" "fd_lookup tab1 1 \<noteq> None" by simp_all
  note wo = pipe_child_output_wiring [OF out open1]
  from execvp_Exec [OF ex]
  have ctab: "ctab = close_if_open output_fd (close_if_open input_fd tab2)" .
  from wi wo have keep: "fd_lookup ctab 0 = fd_lookup tab2 0"
    "fd_lookup ctab 1 = fd_lookup tab2 1"
    unfolding ctab by (simp_all add: fd_lookup_close_if_open)
  from wi wo keep show ?thesis by simp
qed

lemma create_pipes_succeeds:
  "\<forall>k \<in> set ks. pipe_ok env k \<Longrightarrow>
     \<exists>pipefd' tab'. create_pipes env ks pipefd tab = Inr (pipefd', tab')"
  by (induction ks arbitrary: pipefd tab) (auto simp: sys_pipe_def Let_def)

lemma fork_children_all:
  "\<forall>i \<in> set is. fork_ok env i \<Longrightarrow>
     fork_children env sts pipefd tab is = (map (\<lambda>i. pipe_child env sts pipefd i tab) is, True)"
  by (induction "is") auto

lemma execvp_runs:
  "argv \<noteq> [] \<Longrightarrow> can_exec env (hd argv) \<Longrightarrow> execvp env argv tab s = Exec argv tab s"
  by (cases argv) (simp_all add: execvp_def)

lemma pipe_child_runs:
  assumes "\<forall>f. input_file (sts ! i) = Some f \<longrightarrow> can_open env f ReadOnly"
    and "\<forall>g. output_file (sts ! i) = Some g \<longrightarrow>
           can_open env g (if appends (sts ! i) then WriteAppend else WriteTrunc)"
    and "args (sts ! i) \<noteq> []" and "can_exec env (hd (args (sts ! i)))"
  shows "\<exists>ctab. pipe_child env sts pipefd i tab = Exec (args (sts ! i)) ctab False"
proof -
  from assms(1) have "pipe_child_input env (sts ! i) pipefd i tab \<noteq> None"
    by (cases "input_file (sts ! i)") (auto simp: pipe_child_input_def sys_open_def)
  then obtain input_fd tab1 where
    inp: "pipe_child_input env (sts ! i) pipefd i tab = Some (input_fd, tab1)"
    by auto
  from assms(2) have "pipe_child_output env (sts ! i) pipefd i (length sts) tab1 \<noteq> None"
    by (cases "output_file (sts ! i)") (auto simp: pipe_child_output_def sys_open_def)
  then obtain output_fd tab2 where
    out: "pipe_child_output env (sts ! i) pipefd i (length sts) tab1 = Some (output_fd, tab2)"
    by auto
  from inp out execvp_runs [OF assms(3,4)] show ?thesis by (simp add: pipe_child_def)
qed

lemma system_child_runs:
  assumes "\<forall>f. input_file st = Some f \<longrightarrow> can_open env f ReadOnly"
    and "\<forall>g. output_file st = Some g \<longrightarrow>
           can_open env g (if appends st then WriteAppend else WriteTrunc)"
    and "args st \<noteq> []" and "can_exec env (hd (args st))"
  shows "\<exists>ctab. system_child env st bg tab = Exec (args st) ctab bg"
proof -
  from assms(1) obtain input_fd tab1 where
    inp: "(case input_file st of
              Some f \<Rightarrow>
                (case sys_open env f ReadOnly tab of
                   None \<Rightarrow> None
                 | Some (input_fd, tab') \<Rightarrow> Some (Some input_fd, sys_dup2 input_fd 0 tab'))
            | None \<Rightarrow> Some (None, tab)) = Some (input_fd, tab1)"
    by (cases "input_file st") (auto simp: sys_open_def)
  from assms(2) obtain output_fd tab2 where
    out: "(case output_file st of
                   Some f \<Rightarrow>
                     (case sys_open env f (if appends st then WriteAppend else WriteTrunc) tab1 of
                        None \<Rightarrow> None
                      | Some (output_fd, tab') \<Rightarrow>
                          Some (Some output_fd, sys_dup2 output_fd 1 tab'))
                 | None \<Rightarrow> Some (None, tab1)) = Some (output_fd, tab2)"
    by (cases "output_file st") (auto simp: sys_open_def)
  from inp out execvp_runs [OF assms(3,4)] show ?thesis by (simp add: system_child_def)
qed

text \<open>
  In a shell whose standard input and output are open, and in a system where pipe and
  fork succeed: a stage of a pipeline whose redirection files can be opened and whose
  program is found runs its program, with descriptor 0 on the input file when the stage
  has an input redirection and descriptor 1 on the output file (opened for append or
  truncate, as the stage says) when it has an output redirection, whatever the stage's
  position in the pipeline; and so does a single command.
\<close>

lemma redirection_with_open_descriptors:
  assumes "fd_lookup tab 0 \<noteq> None" and "fd_lookup tab 1 \<noteq> None"
    and "\<forall>k. pipe_ok env k" and "\<forall>j. fork_ok env j"
    and "i < length (stages p)"
    and "\<forall>f. input_file (stages p ! i) = Some f \<longrightarrow> can_open env f ReadOnly"
    and "\<forall>g. output_file (stages p ! i) = Some g \<longrightarrow>
           can_open env g (if appends (stages p ! i) then WriteAppend else WriteTrunc)"
    and "args (stages p ! i) \<noteq> []" and "can_exec env (hd (args (stages p ! i)))"
  shows "\<exists>ctab.
           length (children (execute_multiple_pipes env p tab)) = length (stages p)
         \<and> children (execute_multiple_pipes env p tab) ! i = Exec (args (stages p ! i)) ctab False
         \<and> (\<forall>f. input_file (stages p ! i) = Some f \<longrightarrow>
                  fd_lookup ctab 0 = Some (OpenFile f ReadOnly))
         \<and> (\<forall>g. output_file (stages p ! i) = Some g \<longrightarrow>
                  fd_lookup ctab 1
                    = Some (OpenFile g (if appends (stages p ! i) then WriteAppend
                                        else WriteTrunc)))"
    and "\<exists>ctab.
           children (execute_system_command env (stages p ! i) bg tab)
             = [Exec (args (stages p ! i)) ctab bg]
         \<and> (\<forall>f. input_file (stages p ! i) = Some f \<longrightarrow>
                  fd_lookup ctab 0 = Some (OpenFile f ReadOnly))
         \<and> (\<forall>g. output_file (stages p ! i) = Some g \<longrightarrow>
                  fd_lookup ctab 1
                    = Some (OpenFile g (if appends (stages p ! i) then WriteAppend
                                        else WriteTrunc)))"
proof -
  let ?n = "length (stages p)"
  from assms(3) obtain pipefd tab' where
    cp: "create_pipes env [0 ..< ?n - 1] [] tab = Inr (pipefd, tab')"
    using create_pipes_succeeds [of "[0 ..< ?n - 1]" env "[]" tab] by auto
  from assms(4) have fc: "fork_children env (stages p) pipefd tab' [0 ..< ?n]
      = (map (\<lambda>i. pipe_child env (stages p) pipefd i tab') [0 ..< ?n], True)"
    by (intro fork_children_all) simp
  from cp fc have ch: "children (execute_multiple_pipes env p tab)
      = map (\<lambda>i. pipe_child env (stages p) pipefd i tab') [0 ..< ?n]"
    by (simp add: execute_multiple_pipes_def Let_def)
  from pipe_child_runs [OF assms(6-9)] obtain ctab where
    pc: "pipe_child env (stages p) pipefd i tab' = Exec (args (stages p ! i)) ctab False"
    by blast
  from create_pipes_fresh [OF cp assms(1,2)] have
    "fd_lookup tab' 0 \<noteq> None" "fd_lookup tab' 1 \<noteq> None" "0 \<notin> set pipefd" "1 \<notin> set pipefd"
    using assms(1,2) by simp_all
  note w = pipe_child_wiring [OF pc this]
  from ch assms(5) pc have "children (execute_multiple_pipes env p tab) ! i
      = Exec (args (stages p ! i)) ctab False"
    by simp
  with ch w show "\<exists>ctab.
           length (children (execute_multiple_pipes env p tab)) = length (stages p)
         \<and> children (execute_multiple_pipes env p tab) ! i = Exec (args (stages p ! i)) ctab False
         \<and> (\<forall>f. input_file (stages p ! i) = Some f \<longrightarrow>
                  fd_lookup ctab 0 = Some (OpenFile f ReadOnly))
         \<and> (\<forall>g. output_file (stages p ! i) = Some g \<longrightarrow>
                  fd_lookup ctab 1
                    = Some (OpenFile g (if appends (stages p ! i) then WriteAppend
                                        else WriteTrunc)))"
    by auto
  from system_child_runs [OF assms(6-9)] obtain ctab' where
    sc: "system_child env (stages p ! i) bg tab = Exec (args (stages p ! i)) ctab' bg"
    by blast
  note w' = system_child_wiring [OF sc assms(1,2)]
  from sc assms(4,8) have "children (execute_system_command env (stages p ! i) bg tab)
             = [Exec (args (stages p ! i)) ctab' bg]"
    by (simp add: execute_system_command_def)
  with w' show "\<exists>ctab.
           children (execute_system_command env (stages p ! i) bg tab)
             = [Exec (args (stages p ! i)) ctab bg]
         \<and> (\<forall>f. input_file (stages p ! i) = Some f \<longrightarrow>
                  fd_lookup ctab 0 = Some (OpenFile f ReadOnly))
         \<and> (\<forall>g. output_file (stages p ! i) = Some g \<longrightarrow>
                  fd_lookup ctab 1
                    = Some (OpenFile g (if appends (stages p ! i) then WriteAppend
                                        else WriteTrunc)))"
    by auto
qed

text \<open>
  A pipeline of three stages launched from a terminal: \<open>cat < in | sort > mid |
  wc < words >> out\<close>. The second stage reads the pipe and writes the file \<open>mid\<close>,
  the third reads the file \<open>words\<close> and not the pipe.
\<close>

lemma redirected_pipeline_example:
  "children (execute_multiple_pipes obliging_os redirected_pipeline terminal_fds) =
     [Exec [''cat'']
        [Some (OpenFile ''in'' ReadOnly), Some (PipeWrite 0), Some Inherited,
         None, None, None, None, None] False,
      Exec [''sort'']
        [Some (PipeRead 0), Some (OpenFile ''mid'' WriteTrunc), Some Inherited,
         None, None, None, None, None] False,
      Exec [''wc'']
        [Some (OpenFile ''words'' ReadOnly), Some (OpenFile ''out'' WriteAppend),
         Some Inherited, None, None, None, None, None, None] False]"
  by code_simp

section \<open>The claim about the executor\<close>

subsection \<open>C6: a redirection takes precedence over the pipe\<close>

text \<open>
  C6 says that in every stage of every launched pipeline, an input redirection decides
  what the standard input of the program is, and an output redirection what its standard
  output is. The code opens the file and duplicates its descriptor onto 0 or 1, and
  before execvp it closes \<open>input_fd\<close>, \<open>output_fd\<close> and every pipe descriptor without
  testing whether one of them is 0 or 1 itself. In a shell whose standard output is
  closed, \<open>open\<close> returns descriptor 1 for the output file of \<open>ls > out\<close>: the dup2 of 1
  onto 1 changes nothing and \<open>close(output_fd)\<close> closes the file again, so \<open>ls\<close> runs
  with descriptor 1 closed. In the pipeline \<open>cat | sort > out\<close> of the same shell the
  pipe's read end is descriptor 1, the file is duplicated onto it, and the loop that
  closes the pipe descriptors closes it: \<open>sort\<close> runs with descriptor 1 closed. And in
  a shell whose standard input is closed, \<open>wc < words\<close> runs with descriptor 0 closed.
\<close>

theorem redirection_lost_on_closed_descriptor:
  "fd_lookup stdout_closed_fds 1 = None
   \<and> execute_system_command obliging_os
       \<lparr>args = [''ls''], input_file = None, output_file = Some ''out'', appends = False\<rparr>
       False stdout_closed_fds
     = \<lparr>children = [Exec [''ls''] [Some Inherited, None, Some Inherited] False],
        shell_fds = stdout_closed_fds, waited = True, failure = None\<rparr>
   \<and> fd_lookup [Some Inherited, None, Some Inherited] 1 = None
   \<and> children (execute_multiple_pipes obliging_os
       \<lparr>stages = [\<lparr>args = [''cat''], input_file = None, output_file = None, appends = False\<rparr>,
                   \<lparr>args = [''sort''], input_file = None, output_file = Some ''out'',
                     appends = False\<rparr>],
         background = False\<rparr> stdout_closed_fds) ! 1
     = Exec [''sort''] [Some (PipeRead 0), None, Some Inherited, None, None] False
   \<and> fd_lookup [Some (PipeRead 0), None, Some Inherited, None, None] 1 = None
   \<and> fd_lookup stdin_closed_fds 0 = None
   \<and> execute_system_command obliging_os
       \<lparr>args = [''wc''], input_file = Some ''words'', output_file = None, appends = False\<rparr>
       False stdin_closed_fds
     = \<lparr>children = [Exec [''wc''] [None, Some Inherited, Some Inherited] False],
        shell_fds = stdin_closed_fds, waited = True, failure = None\<rparr>
   \<and> fd_lookup [None, Some Inherited, Some Inherited] 0 = None"
  by code_simp

section \<open>Properties of path resolution and of the tree operations\<close>

subsection \<open>One step of a path resolution, by cases\<close>









declare walk_path.simps(2) [simp del]
















subsection \<open>Resolution in a file system that has changed\<close>




subsection \<open>Paths joined from a directory and an entry\<close>








subsection \<open>The delete of a directory of regular files\<close>





subsection \<open>The copy of a regular file\<close>

lemma copy_loop_diag:
  "snd (copy_loop env src_fd dest_fd off data fs) \<in> {[], [ReadFailed], [WriteFailed]}"
proof (induction env src_fd dest_fd off data fs rule: copy_loop.induct)
  case (1 env src_fd dest_fd off data fs)
  show ?case
    using "1.IH" [OF _ _ refl refl]
    by (subst copy_loop.simps) (auto simp: Let_def)
qed





















subsection \<open>The delete of a tree of directories and regular files\<close>

































section \<open>The claims about the tree operations\<close>

subsection \<open>C5: delete and symbolic links\<close>

text \<open>
  C5 says that delete looks at the path without following a symbolic link at its final
  component, and so acts on a link itself. The comment of line 680 says the same ("avoid
  following symlinks"), but the call is \<open>stat\<close>, which follows the link, and not
  \<open>lstat\<close>. Here \<open>link\<close> is a symbolic link to the directory \<open>data\<close>: the delete of
  \<open>link\<close> removes \<open>data/keep.txt\<close>, a file of the target, and then fails to remove
  the link, which is still there afterwards.
\<close>

theorem delete_follows_symlink:
  "sys_lstat linked_tree ''link'' = Some \<lparr>st_type = S_IFLNK, st_perm = 511\<rparr>
   \<and> sys_lstat linked_tree ''data/keep.txt'' = Some \<lparr>st_type = S_IFREG, st_perm = 420\<rparr>
   \<and> recursive_delete ''link'' 0 linked_tree =
       ([Directory 493 0 [(''data'', 1), (''link'', 3), (''notes'', 4)],
         Directory 493 0 [],
         RegFile 420 ''precious'',
         Symlink ''data'',
         RegFile 420 ''memo''],
        [RmdirFailed])
   \<and> sys_lstat [Directory 493 0 [(''data'', 1), (''link'', 3), (''notes'', 4)],
                 Directory 493 0 [],
                 RegFile 420 ''precious'',
                 Symlink ''data'',
                 RegFile 420 ''memo''] ''data/keep.txt'' = None
   \<and> sys_lstat [Directory 493 0 [(''data'', 1), (''link'', 3), (''notes'', 4)],
                 Directory 493 0 [],
                 RegFile 420 ''precious'',
                 Symlink ''data'',
                 RegFile 420 ''memo''] ''link''
       = Some \<lparr>st_type = S_IFLNK, st_perm = 511\<rparr>"
  by code_simp

subsection \<open>C4: paths longer than the buffer\<close>

text \<open>
  C4 says that no tree operation goes on with a silently truncated path. Every path
  joined with snprintf is checked, but the copy of a file to a destination that is not
  a directory puts the destination into the buffer with strncpy and checks nothing.
  Here the destination has 514 bytes and names \<open>copy.txt\<close> in an existing directory.
  Whatever the system: the path the copy opens is the first 512 bytes of the destination,
  which end in \<open>copy.t\<close>, followed by whatever bytes lie behind the buffer; the copy
  goes on with that path (its result is that of creating and writing that file) and
  never reports that a path is too long. When the buffer happens to be followed by a
  NUL the copy creates \<open>copy.t\<close> without any message and \<open>copy.txt\<close> does not exist
  afterwards; when two other bytes follow, it creates a file whose name is \<open>copy.t\<close>
  and these two bytes.
\<close>

theorem long_destination_is_truncated:
  "length long_dest = 514
   \<and> final_dest (beyond env 0) deep_tree ''notes'' long_dest
       = Some (deep_name @ ''/'' @ deep_name @ ''/copy.t'' @ beyond env 0)
   \<and> recursive_copy env ''notes'' long_dest 0 deep_tree =
       (case sys_creat env deep_tree (deep_name @ ''/'' @ deep_name @ ''/copy.t'' @ beyond env 0)
               420 of
          None \<Rightarrow> (deep_tree, [OpenDestFailed])
        | Some (dest_fd, fs1) \<Rightarrow> copy_loop env 3 dest_fd 0 (file_bytes fs1 3) fs1)
   \<and> DestPathTooLong \<notin> set (snd (recursive_copy env ''notes'' long_dest 0 deep_tree))
   \<and> PathTooLong \<notin> set (snd (recursive_copy env ''notes'' long_dest 0 deep_tree))
   \<and> recursive_copy calm_env ''notes'' long_dest 0 deep_tree =
       ([Directory 493 0 [(deep_name, 1), (''notes'', 3)],
         Directory 493 0 [(deep_name, 2)],
         Directory 493 1 [(''copy.t'', 4)],
         RegFile 420 ''memo'',
         RegFile 420 ''memo''],
        [])
   \<and> sys_lstat [Directory 493 0 [(deep_name, 1), (''notes'', 3)],
                 Directory 493 0 [(deep_name, 2)],
                 Directory 493 1 [(''copy.t'', 4)],
                 RegFile 420 ''memo'',
                 RegFile 420 ''memo''] long_dest = None
   \<and> recursive_copy littered_env ''notes'' long_dest 0 deep_tree =
       ([Directory 493 0 [(deep_name, 1), (''notes'', 3)],
         Directory 493 0 [(deep_name, 2)],
         Directory 493 1 [(''copy.t'' @ [CHR 0x01, CHR 0x7F], 4)],
         RegFile 420 ''memo'',
         RegFile 420 ''memo''],
        [])"
proof -
  have h1: "sys_stat deep_tree ''notes'' = Some \<lparr>st_type = S_IFREG, st_perm = 420\<rparr>"
    by code_simp
  have h2: "sys_open_read deep_tree ''notes'' = Some 3" by code_simp
  have h3: "sys_stat deep_tree long_dest = None" by code_simp
  have h4: "length long_dest = 514" by code_simp
  have h5: "take MAX_PATH long_dest = deep_name @ ''/'' @ deep_name @ ''/copy.t''" by code_simp
  have f: "final_dest (beyond env 0) deep_tree ''notes'' long_dest
       = Some (deep_name @ ''/'' @ deep_name @ ''/copy.t'' @ beyond env 0)"
    unfolding final_dest_def strncpy_path_def h3 h4 h5 by (simp add: MAX_PATH_def)
  have r: "recursive_copy env ''notes'' long_dest 0 deep_tree =
       (case sys_creat env deep_tree (deep_name @ ''/'' @ deep_name @ ''/copy.t'' @ beyond env 0)
               420 of
          None \<Rightarrow> (deep_tree, [OpenDestFailed])
        | Some (dest_fd, fs1) \<Rightarrow> copy_loop env 3 dest_fd 0 (file_bytes fs1 3) fs1)"
    unfolding recursive_copy.simps [of env "''notes''" long_dest 0 deep_tree] copy_file_def h1 h2 f
    by (simp add: S_ISDIR_def MAX_RECURSION_def)
  have "snd (case x of None \<Rightarrow> (deep_tree, [OpenDestFailed])
              | Some (dest_fd, fs1) \<Rightarrow> copy_loop env 3 dest_fd 0 (file_bytes fs1 3) fs1)
          \<in> {[OpenDestFailed], [], [ReadFailed], [WriteFailed]}" for x
  proof (cases x)
    case None
    then show ?thesis by simp
  next
    case (Some y)
    obtain dest_fd fs1 where y: "y = (dest_fd, fs1)" by (cases y)
    from copy_loop_diag [of env 3 dest_fd 0 "file_bytes fs1 3" fs1] Some y
    show ?thesis by auto
  qed
  then have "snd (recursive_copy env ''notes'' long_dest 0 deep_tree)
          \<in> {[OpenDestFailed], [], [ReadFailed], [WriteFailed]}"
    unfolding r .
  then have d1: "DestPathTooLong \<notin> set (snd (recursive_copy env ''notes'' long_dest 0 deep_tree))"
    and d2: "PathTooLong \<notin> set (snd (recursive_copy env ''notes'' long_dest 0 deep_tree))"
    by auto
  have c1: "recursive_copy calm_env ''notes'' long_dest 0 deep_tree =
       ([Directory 493 0 [(deep_name, 1), (''notes'', 3)],
         Directory 493 0 [(deep_name, 2)],
         Directory 493 1 [(''copy.t'', 4)],
         RegFile 420 ''memo'',
         RegFile 420 ''memo''],
        [])"
    by code_simp
  have c2: "sys_lstat [Directory 493 0 [(deep_name, 1), (''notes'', 3)],
                 Directory 493 0 [(deep_name, 2)],
                 Directory 493 1 [(''copy.t'', 4)],
                 RegFile 420 ''memo'',
                 RegFile 420 ''memo''] long_dest = None"
    by code_simp
  have c3: "recursive_copy littered_env ''notes'' long_dest 0 deep_tree =
       ([Directory 493 0 [(deep_name, 1), (''notes'', 3)],
         Directory 493 0 [(deep_name, 2)],
         Directory 493 1 [(''copy.t'' @ [CHR 0x01, CHR 0x7F], 4)],
         RegFile 420 ''memo'',
         RegFile 420 ''memo''],
        [])"
    by code_simp
  show ?thesis by (intro conjI) (fact h4 f r d1 d2 c1 c2 c3)+
qed

subsection \<open>C10: the recursive move\<close>





end
